theory Spec2Isabelle
  imports Complex_Main "HOL-Library.Sublist" "HOL-Library.AList"
begin

section \<open>Strings\<close>

text \<open>
  A Python string is a sequence of Unicode code points, so a string is modelled as a list
  of code points (\<open>nat\<close>); a HOL \<open>char\<close> is a byte and could not hold the characters
  that \<open>filter_results\<close> strips. \<open>lit\<close> embeds an ASCII literal.
\<close>

type_synonym pystr = "nat list"

definition lit :: "string \<Rightarrow> pystr" where
  "lit s = map of_char s"

text \<open>\<^verbatim>\<open>re.sub(r'[^\x00-\x7F]+', '', text)\<close>: every maximal run of characters outside
  \<open>0x00..0x7F\<close> is replaced by the empty string, which leaves exactly the characters
  inside the range, in order.\<close>

definition re_sub_non_ascii :: "pystr \<Rightarrow> pystr" where
  "re_sub_non_ascii text = filter (\<lambda>c. c \<le> 127) text"

text \<open>\<^verbatim>\<open>text.split(sep)\<close> for a one-character separator: one piece more than there are
  separators; the empty string gives one empty piece.\<close>

fun str_split :: "nat \<Rightarrow> pystr \<Rightarrow> pystr list" where
  "str_split sep [] = [[]]"
| "str_split sep (c # cs) =
     (if c = sep then [] # str_split sep cs
      else (case str_split sep cs of
              [] \<Rightarrow> [[c]]
            | t # ts \<Rightarrow> (c # t) # ts))"

text \<open>\<^verbatim>\<open>s.replace(" ", "")\<close>: every space character (code point 32) is dropped.\<close>

definition replace_space :: "pystr \<Rightarrow> pystr" where
  "replace_space s = filter (\<lambda>c. c \<noteq> 32) s"

section \<open>The search filter of the script tree\<close>

text \<open>
  The part of \<open>ScriptTreeWidget\<close> that \<open>ScriptTreeWindow.filter_results\<close> reads and
  writes: the text of the search bar, the name filters of the file-system model
  (\<open>setNameFilters\<close>) and whether the tree view was last expanded (\<open>expandAll\<close>) or
  collapsed (\<open>collapseAll\<close>).
\<close>

record tree_ui =
  search_bar :: pystr
  name_filters :: "pystr list"
  expanded :: bool

definition default_filter :: "pystr list" where
  "default_filter = [lit ''*.py'', lit ''*.mel'']"

text \<open>The body of the \<open>for\<close> loop: the two patterns appended for one piece of the query.\<close>

definition append_filters :: "pystr \<Rightarrow> pystr list \<Rightarrow> pystr list" where
  "append_filters filter_string filters =
     (let filter_string = replace_space filter_string
      in (filters @ [lit ''*'' @ filter_string @ lit ''*.py''])
           @ [lit ''*'' @ filter_string @ lit ''*.mel''])"

definition filter_results :: "tree_ui \<Rightarrow> tree_ui" where
  "filter_results ui =
     (let filter_text = re_sub_non_ascii (search_bar ui)
      in if filter_text = []
         then ui\<lparr>name_filters := default_filter, expanded := False\<rparr>
         else (let filters = fold append_filters (str_split 44 filter_text) []
               in ui\<lparr>expanded := True, name_filters := filters\<rparr>))"

text \<open>
  The filter computation as the specification words it, for comparison with the code:
  split on the comma, remove the whitespace of each term, and give the two patterns of
  each term. Whitespace is the ASCII whitespace: tab, line feed, vertical tab, form feed,
  carriage return and space.
\<close>

definition is_whitespace :: "nat \<Rightarrow> bool" where
  "is_whitespace c = (c = 9 \<or> c = 10 \<or> c = 11 \<or> c = 12 \<or> c = 13 \<or> c = 32)"

definition term_patterns :: "pystr \<Rightarrow> pystr set" where
  "term_patterns t = {lit ''*'' @ t @ lit ''*.py'', lit ''*'' @ t @ lit ''*.mel''}"

definition spec_patterns :: "pystr \<Rightarrow> pystr set" where
  "spec_patterns query =
     (\<Union>t \<in> set (str_split 44 (re_sub_non_ascii query)).
        term_patterns (filter (\<lambda>c. \<not> is_whitespace c) t))"

text \<open>The widget as \<open>ScriptTreeWidget.__init__\<close> builds it (default name filters, nothing
  expanded), with \<open>text\<close> typed into the search bar.\<close>

definition ui_after_typing :: "pystr \<Rightarrow> tree_ui" where
  "ui_after_typing text = \<lparr>search_bar = text, name_filters = default_filter, expanded = False\<rparr>"

section \<open>Settings and the double click\<close>

text \<open>The two choices of \<open>ScriptTreeConstants\<close> and the keys of \<open>ScriptEditorSettings\<close>.\<close>

definition run_script_on_click :: pystr where
  "run_script_on_click = lit ''Run Script on Double-Click''"

definition edit_script_on_click :: pystr where
  "edit_script_on_click = lit ''Edit Script on Double-Click''"

definition k_folder_path :: pystr where
  "k_folder_path = lit ''script_tree/folder_path''"

definition k_double_click_action :: pystr where
  "k_double_click_action = lit ''script_tree/double_click_action''"

text \<open>
  The settings object is a store from keys to values. \<open>QSettings.value(key, defaultValue)\<close>
  gives the stored value, or the default (Python's \<open>None\<close> when the caller gives none) for a
  key that was never set; \<open>setValue\<close> stores.
\<close>

type_synonym settings = "pystr \<rightharpoonup> pystr"

definition QSettings_value :: "settings \<Rightarrow> pystr \<Rightarrow> pystr option \<Rightarrow> pystr option" where
  "QSettings_value s key defaultValue = (case s key of Some v \<Rightarrow> Some v | None \<Rightarrow> defaultValue)"

definition setValue :: "settings \<Rightarrow> pystr \<Rightarrow> pystr \<Rightarrow> settings" where
  "setValue s key v = s(key \<mapsto> v)"

text \<open>
  The window holds the settings and the slots connected to the \<open>doubleClicked\<close> signal of
  the tree view; a double click calls the connected slots in order.
\<close>

datatype slot = action_open_script | action_run_script

record window =
  settings :: settings
  doubleClicked :: "slot list"

text \<open>\<open>disconnect()\<close> removes every connection (the \<open>RuntimeError\<close> of a signal without
  connections is caught and ignored), then one slot is connected.\<close>

definition action_setup_double_click_connections :: "window \<Rightarrow> window" where
  "action_setup_double_click_connections w =
     (let w = w\<lparr>doubleClicked := []\<rparr>;
          settings_value = QSettings_value (settings w) k_double_click_action (Some edit_script_on_click)
      in if settings_value = Some edit_script_on_click
         then w\<lparr>doubleClicked := doubleClicked w @ [action_open_script]\<rparr>
         else w\<lparr>doubleClicked := doubleClicked w @ [action_run_script]\<rparr>)"

definition set_settings_value :: "window \<Rightarrow> pystr \<Rightarrow> pystr \<Rightarrow> (window \<Rightarrow> window) \<Rightarrow> window" where
  "set_settings_value w key v post_set_command =
     post_set_command (w\<lparr>settings := setValue (settings w) key v\<rparr>)"

text \<open>\<open>action_set_folder\<close>, as far as the settings go: without a folder the user is asked
  (\<open>dialog\<close> is the answer, empty when the dialog is cancelled), and the folder is stored.\<close>

definition action_set_folder :: "pystr \<Rightarrow> pystr \<Rightarrow> window \<Rightarrow> window" where
  "action_set_folder dialog folder_path w =
     (let folder_path = (if folder_path = [] then dialog else folder_path)
      in if folder_path = [] then w
         else w\<lparr>settings := setValue (settings w) k_folder_path folder_path\<rparr>)"

text \<open>\<open>ScriptTreeWindow.__init__\<close>: the settings are those stored by earlier sessions;
  \<open>setup_connections\<close> wires the double click, then the folder is read and set.\<close>

definition init_window :: "settings \<Rightarrow> pystr \<Rightarrow> pystr \<Rightarrow> window" where
  "init_window stored default_script_folder dialog =
     (let w = action_setup_double_click_connections \<lparr>settings = stored, doubleClicked = []\<rparr>
      in case QSettings_value (settings w) k_folder_path (Some default_script_folder) of
           None \<Rightarrow> action_set_folder dialog [] w
         | Some folder_path \<Rightarrow> action_set_folder dialog folder_path w)"

text \<open>
  The context menu: \<open>context_menu_actions\<close> lists separators, commands (a title and a
  callback, of which the title is kept) and one \<open>RADIO_SETTING\<close> with its key, its choices
  and its default; \<open>build_menu_from_action_list\<close> turns the radio setting into one
  checkable action for each choice.
\<close>

datatype menu_entry = Separator | Command pystr | RADIO_SETTING pystr "pystr list" pystr

datatype menu_item = Item_separator | Item_action pystr | Item_radio pystr bool

definition context_menu_actions :: "menu_entry list" where
  "context_menu_actions =
     [Command (lit ''Run Script''), Command (lit ''Edit Script''), Separator,
      RADIO_SETTING k_double_click_action [run_script_on_click, edit_script_on_click]
        run_script_on_click,
      Separator,
      Command (lit ''Copy path''), Command (lit ''Show in explorer''),
      Command (lit ''Open backup folder''),
      Separator,
      Command (lit ''Save all temporary tabs''), Command (lit ''Backup Script Tree'')]"

text \<open>\<open>if not item_to_check\<close> holds for \<open>None\<close> and for the empty string.\<close>

fun build_menu_entry :: "settings \<Rightarrow> menu_entry \<Rightarrow> menu_item list" where
  "build_menu_entry s Separator = [Item_separator]"
| "build_menu_entry s (Command action_title) = [Item_action action_title]"
| "build_menu_entry s (RADIO_SETTING settings_key choices default_choice) =
     (let item_to_check = QSettings_value s settings_key None;
          item_to_check = (if item_to_check = None \<or> item_to_check = Some []
                           then Some default_choice else item_to_check)
      in map (\<lambda>choice_key. Item_radio choice_key (Some choice_key = item_to_check)) choices)"

definition build_menu_from_action_list :: "settings \<Rightarrow> menu_entry list \<Rightarrow> menu_item list" where
  "build_menu_from_action_list s actions = concat (map (build_menu_entry s) actions)"

definition context_menu :: "window \<Rightarrow> menu_item list" where
  "context_menu w = build_menu_from_action_list (settings w) context_menu_actions"

text \<open>The choices that the menu shows as checked.\<close>

fun checked_choice :: "menu_item \<Rightarrow> pystr list" where
  "checked_choice (Item_radio choice_key is_checked) = (if is_checked then [choice_key] else [])"
| "checked_choice Item_separator = []"
| "checked_choice (Item_action action_title) = []"

definition checked_choices :: "menu_item list \<Rightarrow> pystr list" where
  "checked_choices items = concat (map checked_choice items)"

text \<open>
  What the user can do to the window: trigger the radio action of a choice (its
  \<open>triggered\<close> signal calls \<open>set_settings_value\<close> with
  \<open>action_setup_double_click_connections\<close> as the command to run afterwards), press the
  folder button (\<open>action_set_folder\<close> without a folder) or double click, which calls the
  connected slots and leaves the window as it is.
\<close>

datatype event = Choose pystr | Set_folder pystr | Double_click

fun handle :: "event \<Rightarrow> window \<Rightarrow> window" where
  "handle (Choose choice_key) w =
     set_settings_value w k_double_click_action choice_key action_setup_double_click_connections"
| "handle (Set_folder dialog) w = action_set_folder dialog [] w"
| "handle Double_click w = w"

text \<open>The preference that the settings hold after an event, from the one they held before:
  only a choice in the menu changes it.\<close>

fun choose_preference :: "event \<Rightarrow> pystr option \<Rightarrow> pystr option" where
  "choose_preference (Choose choice_key) preference = Some choice_key"
| "choose_preference (Set_folder dialog) preference = preference"
| "choose_preference Double_click preference = preference"

definition double_click :: "window \<Rightarrow> slot list" where
  "double_click w = doubleClicked w"

text \<open>The double click is wired as the stored preference says.\<close>

definition wired :: "window \<Rightarrow> bool" where
  "wired w = (doubleClicked w =
      (if QSettings_value (settings w) k_double_click_action (Some edit_script_on_click)
            = Some edit_script_on_click
       then [action_open_script] else [action_run_script]))"

section \<open>Path names\<close>

text \<open>
  The functions of \<open>os.path\<close> that the backups use, with the separator \<open>/\<close> (code point 47)
  and the extension dot (46), as \<open>posixpath\<close> defines them.
\<close>

definition basename :: "pystr \<Rightarrow> pystr" where
  "basename p = rev (takeWhile (\<lambda>c. c \<noteq> 47) (rev p))"

definition dirname :: "pystr \<Rightarrow> pystr" where
  "dirname p =
     (let head = rev (dropWhile (\<lambda>c. c \<noteq> 47) (rev p))
      in if head \<noteq> [] \<and> head \<noteq> replicate (length head) 47
         then rev (dropWhile (\<lambda>c. c = 47) (rev head))
         else head)"

text \<open>\<open>splitext\<close> splits at the last dot, unless there is none, it lies before the last
  separator, or only dots come before it in the last component.\<close>

definition splitext :: "pystr \<Rightarrow> pystr \<times> pystr" where
  "splitext p =
     (let ext = rev (takeWhile (\<lambda>c. c \<noteq> 46) (rev p));
          stem = take (length p - length ext - 1) p
      in if 46 \<notin> set p \<or> 47 \<in> set ext \<or> filter (\<lambda>c. c \<noteq> 46) (basename stem) = []
         then (p, [])
         else (stem, 46 # ext))"

definition join :: "pystr \<Rightarrow> pystr \<Rightarrow> pystr" where
  "join a b =
     (if b \<noteq> [] \<and> hd b = 47 then b
      else if a = [] \<or> last a = 47 then a @ b
      else a @ [47] @ b)"

text \<open>The names along a path; empty pieces (doubled or trailing separators) do not count.
  Paths are taken from the root and without \<open>.\<close> and \<open>..\<close> components.\<close>

definition components :: "pystr \<Rightarrow> pystr list" where
  "components p = filter (\<lambda>name. name \<noteq> []) (str_split 47 p)"

definition valid_name :: "pystr \<Rightarrow> bool" where
  "valid_name n = (n \<noteq> [] \<and> 47 \<notin> set n)"

text \<open>\<open>str(n)\<close> for a natural number: its decimal digits.\<close>

fun decimal :: "nat \<Rightarrow> pystr" where
  "decimal n = (if n < 10 then [48 + n] else decimal (n div 10) @ [48 + n mod 10])"

declare decimal.simps [simp del]

definition undecimal :: "pystr \<Rightarrow> nat" where
  "undecimal ds = foldl (\<lambda>a d. 10 * a + (d - 48)) 0 ds"

section \<open>The file system\<close>

text \<open>
  The file system is a tree: a file with its bytes and its modification time, or a directory
  with its entries by name. The exceptions are those of the \<open>OSError\<close> family that the
  operations below raise, and \<open>shutil\<close>'s \<open>SameFileError\<close> and \<open>Error\<close>. An operation fails
  for the shape of the tree only: permissions, links and the capacity of the disk are not
  part of the model.
\<close>

datatype node = File pystr nat | Dir "(pystr \<times> node) list"

datatype error = FileNotFoundError | FileExistsError | NotADirectoryError
  | IsADirectoryError | SameFileError | Error

fun lookup :: "node \<Rightarrow> pystr list \<Rightarrow> node option" where
  "lookup n [] = Some n"
| "lookup (File c m) (x # xs) = None"
| "lookup (Dir es) (x # xs) = (case map_of es x of None \<Rightarrow> None | Some child \<Rightarrow> lookup child xs)"

text \<open>Writing a node at a path, whose parent has to be a directory.\<close>

fun store :: "node \<Rightarrow> pystr list \<Rightarrow> node \<Rightarrow> error + node" where
  "store n [] v = Inr v"
| "store (File c m) (x # xs) v = Inl NotADirectoryError"
| "store (Dir es) (x # xs) v =
     (if xs = [] then Inr (Dir (AList.update x v es))
      else (case map_of es x of
              None \<Rightarrow> Inl FileNotFoundError
            | Some child \<Rightarrow>
                (case store child xs v of
                   Inl e \<Rightarrow> Inl e
                 | Inr child' \<Rightarrow> Inr (Dir (AList.update x child' es)))))"

text \<open>Creating a directory with the missing directories above it; the directory itself
  must not exist.\<close>

fun mkchain :: "pystr list \<Rightarrow> node" where
  "mkchain [] = Dir []"
| "mkchain (x # xs) = Dir [(x, mkchain xs)]"

fun mkdirs :: "node \<Rightarrow> pystr list \<Rightarrow> error + node" where
  "mkdirs n [] = Inl FileExistsError"
| "mkdirs (File c m) (x # xs) = Inl NotADirectoryError"
| "mkdirs (Dir es) (x # xs) =
     (case map_of es x of
        None \<Rightarrow> Inr (Dir (AList.update x (mkchain xs) es))
      | Some child \<Rightarrow>
          (case mkdirs child xs of
             Inl e \<Rightarrow> Inl e
           | Inr child' \<Rightarrow> Inr (Dir (AList.update x child' es))))"

text \<open>What a path names: nothing for the empty path, and nothing for a file named with a
  trailing separator.\<close>

definition resolve :: "node \<Rightarrow> pystr \<Rightarrow> node option" where
  "resolve fs p =
     (if p = [] then None
      else (case lookup fs (components p) of
              None \<Rightarrow> None
            | Some (File c m) \<Rightarrow> if last p = 47 then None else Some (File c m)
            | Some (Dir es) \<Rightarrow> Some (Dir es)))"

text \<open>\<open>os.path.exists\<close>, \<open>os.path.isdir\<close>, \<open>os.listdir\<close> and \<open>os.makedirs\<close>.\<close>

definition path_exists :: "node \<Rightarrow> pystr \<Rightarrow> bool" where
  "path_exists fs p = (resolve fs p \<noteq> None)"

definition isdir :: "node \<Rightarrow> pystr \<Rightarrow> bool" where
  "isdir fs p = (case resolve fs p of Some (Dir es) \<Rightarrow> True | _ \<Rightarrow> False)"

definition listdir :: "node \<Rightarrow> pystr \<Rightarrow> error + pystr list" where
  "listdir fs p =
     (case resolve fs p of
        None \<Rightarrow> Inl FileNotFoundError
      | Some (File c m) \<Rightarrow> Inl NotADirectoryError
      | Some (Dir es) \<Rightarrow> Inr (map fst es))"

definition makedirs :: "node \<Rightarrow> pystr \<Rightarrow> error + node" where
  "makedirs fs p = (if p = [] then Inl FileNotFoundError else mkdirs fs (components p))"

text \<open>
  \<open>shutil.copy2(src, dst)\<close>: a destination that is a directory stands for the file of the
  same name inside it; the bytes and the modification time of the source file are written
  at the destination, over a file that is there already.
\<close>

definition copy2 :: "node \<Rightarrow> pystr \<Rightarrow> pystr \<Rightarrow> error + node" where
  "copy2 fs src dst =
     (let dst = (if isdir fs dst then join dst (basename src) else dst)
      in if path_exists fs src \<and> path_exists fs dst \<and> components src = components dst
         then Inl SameFileError
         else (case resolve fs src of
                 None \<Rightarrow> Inl FileNotFoundError
               | Some (Dir es) \<Rightarrow> Inl IsADirectoryError
               | Some (File c m) \<Rightarrow>
                   if dst = [] then Inl FileNotFoundError
                   else if last dst = 47 \<or> isdir fs dst then Inl IsADirectoryError
                   else store fs (components dst) (File c m)))"

text \<open>
  \<open>shutil.copytree(src, dst)\<close>: the destination must not exist; it is created, with the
  directories above it, and receives the whole tree of the source. A destination inside
  the source makes the copy descend into its own output until it fails; the model gives
  the error and not the partial output of this one call.
\<close>

definition copytree :: "node \<Rightarrow> pystr \<Rightarrow> pystr \<Rightarrow> error + node" where
  "copytree fs src dst =
     (case resolve fs src of
        None \<Rightarrow> Inl FileNotFoundError
      | Some (File c m) \<Rightarrow> Inl NotADirectoryError
      | Some (Dir es) \<Rightarrow>
          (case makedirs fs dst of
             Inl e \<Rightarrow> Inl e
           | Inr fs' \<Rightarrow>
               if prefix (components src) (components dst) then Inl Error
               else store fs' (components dst) (Dir es)))"

text \<open>The file, with its modification time, at a path, and whether a directory is there.\<close>

definition file_at :: "node \<Rightarrow> pystr list \<Rightarrow> (pystr \<times> nat) option" where
  "file_at fs q = (case lookup fs q of Some (File c m) \<Rightarrow> Some (c, m) | _ \<Rightarrow> None)"

definition dir_at :: "node \<Rightarrow> pystr list \<Rightarrow> bool" where
  "dir_at fs q = (case lookup fs q of Some (Dir es) \<Rightarrow> True | _ \<Rightarrow> False)"

section \<open>Logging\<close>

text \<open>
  \<open>logger.py\<close> makes the logger named \<open>Script-Tree\<close>, which does not propagate, and binds it
  to \<open>log\<close> (here \<open>script_tree_log\<close>); the functions of the \<open>logging\<close> module itself,
  \<open>logging.error\<close> and \<open>logging.info\<close>, log through the root logger. A log record keeps the
  logger it went through.
\<close>

datatype logger = Root_logger | Named_logger pystr

datatype levelname = DEBUG | INFO | WARNING | ERROR

record logger_settings =
  logger_name :: pystr
  logger_level :: levelname
  propagate :: bool

definition set_logger :: logger_settings where
  "set_logger = \<lparr>logger_name = lit ''Script-Tree'', logger_level = DEBUG, propagate = False\<rparr>"

definition script_tree_log :: logger where
  "script_tree_log = Named_logger (logger_name set_logger)"

record log_record =
  via :: logger
  level :: levelname
  message :: pystr

record world =
  files :: node
  log_records :: "log_record list"

definition emit :: "logger \<Rightarrow> levelname \<Rightarrow> pystr \<Rightarrow> world \<Rightarrow> world" where
  "emit lg lvl text w =
     w\<lparr>log_records := log_records w @ [\<lparr>via = lg, level = lvl, message = text\<rparr>]\<rparr>"

definition logging_error :: "pystr \<Rightarrow> world \<Rightarrow> world" where
  "logging_error text w = emit Root_logger ERROR text w"

definition logging_info :: "pystr \<Rightarrow> world \<Rightarrow> world" where
  "logging_info text w = emit Root_logger INFO text w"

text \<open>The text of an exception, which \<open>logging.error(e)\<close> logs.\<close>

fun str_error :: "error \<Rightarrow> pystr" where
  "str_error FileNotFoundError = lit ''No such file or directory''"
| "str_error FileExistsError = lit ''File exists''"
| "str_error NotADirectoryError = lit ''Not a directory''"
| "str_error IsADirectoryError = lit ''Is a directory''"
| "str_error SameFileError = lit ''are the same file''"
| "str_error Error = lit ''Cannot copy a directory into itself''"

section \<open>Backups\<close>

text \<open>A call returns, or raises an exception; both leave a state behind.\<close>

datatype 's outcome = Returned 's | Raised error 's

text \<open>The two backup folders of \<open>ScriptTreeConstants\<close>, built from the folder of the user's
  documents and the name of the host application.\<close>

record constants =
  script_backup_folder :: pystr
  tree_backup_folder :: pystr

definition replace_backslash :: "pystr \<Rightarrow> pystr" where
  "replace_backslash s = map (\<lambda>c. if c = 92 then 47 else c) s"

definition ScriptTreeConstants :: "pystr \<Rightarrow> pystr \<Rightarrow> constants" where
  "ScriptTreeConstants user_documents_folder dcc_name =
     (let script_tree_folder =
            replace_backslash (join (join user_documents_folder (lit ''ScriptTree'')) dcc_name)
      in \<lparr>script_backup_folder =
            replace_backslash (join script_tree_folder (lit ''ScriptTree_ScriptBackup'')),
          tree_backup_folder =
            replace_backslash (join script_tree_folder (lit ''ScriptTree_TreeBackup''))\<rparr>)"

text \<open>\<open>str(int(time.time()))\<close>, for the clock reading \<open>now\<close> in seconds, which is not
  negative.\<close>

definition unique_time :: "real \<Rightarrow> pystr" where
  "unique_time now = decimal (nat \<lfloor>now\<rfloor>)"

definition get_backup_folder_for_script :: "constants \<Rightarrow> pystr \<Rightarrow> pystr" where
  "get_backup_folder_for_script lk script_path =
     (let (file_name, file_extension) = splitext (basename script_path)
      in join (script_backup_folder lk) file_name)"

text \<open>\<open>backup_script\<close>: the path of the backup file, the body of the \<open>try\<close> statement, and
  the function with its \<open>except Exception\<close> clause.\<close>

definition backup_file_path :: "constants \<Rightarrow> real \<Rightarrow> pystr \<Rightarrow> pystr" where
  "backup_file_path lk now script_path =
     (let (file_name, file_extension) = splitext (basename script_path);
          backup_file_name = (file_name @ lit ''_BACKUP_'' @ unique_time now) @ file_extension
      in join (get_backup_folder_for_script lk script_path) backup_file_name)"

definition backup_script_try :: "constants \<Rightarrow> real \<Rightarrow> pystr \<Rightarrow> node \<Rightarrow> node outcome" where
  "backup_script_try lk now script_path fs =
     (let backup_file_path = backup_file_path lk now script_path
      in case (if \<not> path_exists fs (dirname backup_file_path)
               then makedirs fs (dirname backup_file_path) else Inr fs) of
           Inl e \<Rightarrow> Raised e fs
         | Inr fs' \<Rightarrow>
             (case copy2 fs' script_path backup_file_path of
                Inl e \<Rightarrow> Raised e fs'
              | Inr fs'' \<Rightarrow> Returned fs''))"

definition backup_script :: "constants \<Rightarrow> real \<Rightarrow> pystr \<Rightarrow> world \<Rightarrow> world outcome" where
  "backup_script lk now script_path w =
     (if \<not> path_exists (files w) script_path then Returned w
      else (case backup_script_try lk now script_path (files w) of
              Returned fs' \<Rightarrow> Returned (w\<lparr>files := fs'\<rparr>)
            | Raised e fs' \<Rightarrow> Returned (logging_error (str_error e) (w\<lparr>files := fs'\<rparr>))))"


text \<open>\<open>copy_directory\<close>: the loop over the entries of the source, and the function.\<close>

fun copy_items :: "pystr \<Rightarrow> pystr \<Rightarrow> pystr list \<Rightarrow> node \<Rightarrow> node outcome" where
  "copy_items src dst [] fs = Returned fs"
| "copy_items src dst (item # items) fs =
     (let s = join src item; d = join dst item
      in case (if isdir fs s then copytree fs s d else copy2 fs s d) of
           Inl e \<Rightarrow> Raised e fs
         | Inr fs' \<Rightarrow> copy_items src dst items fs')"

definition copy_directory :: "pystr \<Rightarrow> pystr \<Rightarrow> node \<Rightarrow> node outcome" where
  "copy_directory src dst fs =
     (case (if \<not> path_exists fs dst then makedirs fs dst else Inr fs) of
        Inl e \<Rightarrow> Raised e fs
      | Inr fs' \<Rightarrow>
          (case listdir fs' src of
             Inl e \<Rightarrow> Raised e fs'
           | Inr items \<Rightarrow> copy_items src dst items fs'))"

definition backup_directory_path :: "constants \<Rightarrow> real \<Rightarrow> pystr" where
  "backup_directory_path lk now =
     (let backup_directory_name = lit ''ScriptTree_BACKUP_'' @ unique_time now
      in join (tree_backup_folder lk) backup_directory_name)"

definition backup_tree :: "constants \<Rightarrow> real \<Rightarrow> pystr \<Rightarrow> world \<Rightarrow> world outcome" where
  "backup_tree lk now script_folder w =
     (case copy_directory script_folder (backup_directory_path lk now) (files w) of
        Raised e fs' \<Rightarrow> Raised e (w\<lparr>files := fs'\<rparr>)
      | Returned fs' \<Rightarrow>
          Returned (logging_info
                      (lit ''ScriptTree Network Folder Saved: '' @ backup_directory_path lk now)
                      (w\<lparr>files := fs'\<rparr>)))"

section \<open>Example states\<close>

text \<open>
  The constants for the documents folder \<open>/d\<close> and the host \<open>Maya\<close>, and a file system with
  the script folder \<open>/s\<close> (a script \<open>a.py\<close> and a folder \<open>lib\<close> with \<open>u.mel\<close>) and a second
  script folder \<open>/o\<close>; the same after the backup of \<open>/s/a.py\<close> at second 5; with a file in
  the place of the folder \<open>/d\<close>; and after the backup of the tree \<open>/s\<close>, and then of \<open>/o\<close>,
  at second 5.
\<close>

definition lk_example :: constants where
  "lk_example = ScriptTreeConstants (lit ''/d'') (lit ''Maya'')"

definition scripts_example :: "(pystr \<times> node) list" where
  "scripts_example =
     [(lit ''s'', Dir [(lit ''a.py'', File (lit ''x'') 1),
                       (lit ''lib'', Dir [(lit ''u.mel'', File (lit ''y'') 2)])]),
      (lit ''o'', Dir [(lit ''b.py'', File (lit ''z'') 3)])]"

definition under_script_tree :: "pystr \<Rightarrow> node \<Rightarrow> pystr \<times> node" where
  "under_script_tree folder n =
     (lit ''d'', Dir [(lit ''ScriptTree'', Dir [(lit ''Maya'', Dir [(folder, n)])])])"

definition fs_scripts :: node where
  "fs_scripts = Dir scripts_example"

definition fs_script_saved :: node where
  "fs_script_saved =
     Dir (scripts_example @
       [under_script_tree (lit ''ScriptTree_ScriptBackup'')
          (Dir [(lit ''a'', Dir [(lit ''a_BACKUP_5.py'', File (lit ''x'') 1)])])])"

definition fs_blocked :: node where
  "fs_blocked = Dir (scripts_example @ [(lit ''d'', File [] 0)])"

definition fs_tree_saved :: node where
  "fs_tree_saved =
     Dir (scripts_example @
       [under_script_tree (lit ''ScriptTree_TreeBackup'')
          (Dir [(lit ''ScriptTree_BACKUP_5'',
                 Dir [(lit ''a.py'', File (lit ''x'') 1),
                      (lit ''lib'', Dir [(lit ''u.mel'', File (lit ''y'') 2)])])])])"

definition fs_tree_saved_twice :: node where
  "fs_tree_saved_twice =
     Dir (scripts_example @
       [under_script_tree (lit ''ScriptTree_TreeBackup'')
          (Dir [(lit ''ScriptTree_BACKUP_5'',
                 Dir [(lit ''a.py'', File (lit ''x'') 1),
                      (lit ''lib'', Dir [(lit ''u.mel'', File (lit ''y'') 2)]),
                      (lit ''b.py'', File (lit ''z'') 3)])])])"

definition tree_saved_record :: log_record where
  "tree_saved_record =
     \<lparr>via = Root_logger, level = INFO,
      message = lit ''ScriptTree Network Folder Saved: /d/ScriptTree/Maya/ScriptTree_TreeBackup/ScriptTree_BACKUP_5''\<rparr>"

section \<open>Properties of the search filter\<close>

lemma str_split_not_Nil: "str_split sep s \<noteq> []"
  by (induction s) (auto split: list.splits)

lemma fold_append_filters:
  "fold append_filters ts acc =
     acc @ concat (map (\<lambda>t. [lit ''*'' @ replace_space t @ lit ''*.py'',
                              lit ''*'' @ replace_space t @ lit ''*.mel'']) ts)"
  by (induction ts arbitrary: acc) (simp_all add: append_filters_def Let_def)


lemma str_split_pieces: "t \<in> set (str_split sep s) \<Longrightarrow> set t \<subseteq> set s - {sep}"
proof (induction s arbitrary: t)
  case Nil
  then show ?case by simp
next
  case (Cons c cs)
  show ?case
  proof (cases "c = sep")
    case True
    with Cons show ?thesis by auto
  next
    case False
    obtain u us where split: "str_split sep cs = u # us"
      using str_split_not_Nil [of sep cs] by (cases "str_split sep cs") auto
    with Cons.prems False have "t = c # u \<or> t \<in> set us" by simp
    moreover have "set u \<subseteq> set cs - {sep}" using Cons.IH [of u] split by simp
    moreover have "t \<in> set us \<Longrightarrow> set t \<subseteq> set cs - {sep}" using Cons.IH [of t] split by simp
    ultimately show ?thesis using False by auto
  qed
qed

lemma length_str_split: "length (str_split sep s) = Suc (count_list s sep)"
  by (induction s) (auto split: list.splits simp: str_split_not_Nil)

lemma re_sub_non_ascii_ascii: "\<forall>c\<in>set s. c \<le> 127 \<Longrightarrow> re_sub_non_ascii s = s"
  by (simp add: re_sub_non_ascii_def)

lemma concat_map_const: "concat (map (\<lambda>t. ys) ts) = concat (replicate (length ts) ys)"
  by (induction ts) simp_all

lemma replace_space_whitespace:
  "\<forall>c\<in>set t. is_whitespace c \<longrightarrow> c = 32 \<Longrightarrow> filter (\<lambda>c. \<not> is_whitespace c) t = replace_space t"
  unfolding replace_space_def by (rule filter_cong) (auto simp: is_whitespace_def)

section \<open>Properties of the double click\<close>

lemma keys_differ: "k_folder_path \<noteq> k_double_click_action"
  by (simp add: k_folder_path_def k_double_click_action_def lit_def)

lemma choices_differ: "run_script_on_click \<noteq> edit_script_on_click"
  by (simp add: run_script_on_click_def edit_script_on_click_def lit_def)

lemma wired_setup: "wired (action_setup_double_click_connections w)"
  by (simp add: wired_def action_setup_double_click_connections_def Let_def)

lemma settings_setup: "settings (action_setup_double_click_connections w) = settings w"
  by (simp add: action_setup_double_click_connections_def Let_def)

lemma wired_set_folder: "wired w \<Longrightarrow> wired (action_set_folder dialog p w)"
  using keys_differ
  by (simp add: wired_def action_set_folder_def setValue_def QSettings_value_def Let_def)

lemma wired_init: "wired (init_window stored folder dialog)"
  by (auto simp: init_window_def Let_def wired_setup wired_set_folder split: option.splits)

lemma wired_handle: "wired w \<Longrightarrow> wired (handle ev w)"
  by (cases ev) (simp_all add: set_settings_value_def wired_setup wired_set_folder)

lemma wired_fold: "wired w \<Longrightarrow> wired (fold handle evs w)"
  by (induction evs arbitrary: w) (simp_all add: wired_handle)

lemma settings_Choose:
  "settings (handle (Choose c) w) k_double_click_action = Some c"
  by (simp add: set_settings_value_def setValue_def settings_setup)

lemma checked_default:
  "settings w k_double_click_action = None \<Longrightarrow> checked_choices (context_menu w) = [run_script_on_click]"
  using choices_differ
  by (simp add: context_menu_def build_menu_from_action_list_def context_menu_actions_def
      checked_choices_def QSettings_value_def)

lemma checked_stored:
  "settings w k_double_click_action = Some c \<Longrightarrow> c \<noteq> [] \<Longrightarrow>
     checked_choices (context_menu w) = filter (\<lambda>choice_key. choice_key = c) [run_script_on_click, edit_script_on_click]"
  by (simp add: context_menu_def build_menu_from_action_list_def context_menu_actions_def
      checked_choices_def QSettings_value_def)

lemma settings_set_folder:
  "settings (action_set_folder dialog p w) k_double_click_action = settings w k_double_click_action"
  using keys_differ by (simp add: action_set_folder_def setValue_def Let_def)

lemma settings_init:
  "settings (init_window stored folder dialog) k_double_click_action = stored k_double_click_action"
  by (simp add: init_window_def Let_def settings_set_folder settings_setup split: option.splits)

lemma settings_handle:
  "settings (handle ev w) k_double_click_action = choose_preference ev (settings w k_double_click_action)"
  by (cases ev) (simp_all add: settings_set_folder set_settings_value_def setValue_def settings_setup)

lemma settings_fold:
  "settings (fold handle evs w) k_double_click_action
     = fold choose_preference evs (settings w k_double_click_action)"
  by (induction evs arbitrary: w) (simp_all add: settings_handle)

section \<open>Properties of the file system and the backups\<close>

subsection \<open>Splitting and path names\<close>

lemma str_split_no_sep: "sep \<notin> set a \<Longrightarrow> str_split sep a = [a]"
  by (induction a) auto

lemma str_split_app:
  "str_split sep (a @ sep # b) = str_split sep a @ str_split sep b"
proof (induction a)
  case Nil
  show ?case by simp
next
  case (Cons c cs)
  obtain u us where u: "str_split sep cs = u # us"
    using str_split_not_Nil [of sep cs] by (cases "str_split sep cs") auto
  show ?case
  proof (cases "c = sep")
    case True
    then show ?thesis using Cons by simp
  next
    case False
    then show ?thesis using Cons u by simp
  qed
qed

lemma components_Nil [simp]: "components [] = []"
  by (simp add: components_def)

lemma components_sep: "components (a @ 47 # b) = components a @ components b"
  by (simp add: components_def str_split_app)

lemma components_name: "valid_name n \<Longrightarrow> components n = [n]"
  by (simp add: components_def valid_name_def str_split_no_sep)

lemma components_snoc_sep: "components (a @ [47]) = components a"
  using components_sep [of a "[]"] by simp

lemma components_join:
  assumes "valid_name n"
  shows "components (join a n) = components a @ [n]"
proof -
  have hd: "hd n \<noteq> 47" using assms by (cases n) (auto simp: valid_name_def)
  show ?thesis
  proof (cases "a = [] \<or> last a = 47")
    case True
    then show ?thesis
    proof
      assume "a = []"
      then show ?thesis using assms hd by (simp add: join_def components_name)
    next
      assume l: "last a = 47"
      show ?thesis
      proof (cases "a = []")
        case True
        then show ?thesis using assms hd by (simp add: join_def components_name)
      next
        case False
        then have a: "a = butlast a @ [47]" using l by (metis append_butlast_last_id)
        have "join a n = butlast a @ 47 # n"
          using hd l assms a by (simp add: join_def valid_name_def)
        then have "components (join a n) = components (butlast a) @ [n]"
          by (simp add: components_sep components_name assms)
        moreover have "components a = components (butlast a)"
          using components_snoc_sep [of "butlast a"] a by simp
        ultimately show ?thesis by simp
      qed
    qed
  next
    case False
    then have "join a n = a @ 47 # n" using hd assms by (simp add: join_def valid_name_def)
    then show ?thesis by (simp add: components_sep components_name assms)
  qed
qed

lemma join_not_Nil: "valid_name n \<Longrightarrow> join a n \<noteq> []"
  by (auto simp: join_def valid_name_def)

lemma last_join: "valid_name n \<Longrightarrow> last (join a n) = last n"
  by (auto simp: join_def valid_name_def)

lemma last_valid_name: "valid_name n \<Longrightarrow> last n \<noteq> 47"
  by (auto simp: valid_name_def) (metis last_in_set)

subsection \<open>Looking up, storing and creating directories\<close>

lemma lookup_append:
  "lookup fs (p @ r) = (case lookup fs p of None \<Rightarrow> None | Some n \<Rightarrow> lookup n r)"
proof (induction fs p rule: lookup.induct)
  case (1 n)
  show ?case by simp
next
  case (2 c m x xs)
  show ?case by simp
next
  case (3 es x xs)
  then show ?case by (cases "map_of es x") simp_all
qed

lemma lookup_prefix_Some:
  "lookup fs q = Some n \<Longrightarrow> prefix p q \<Longrightarrow> lookup fs p \<noteq> None"
  by (auto simp: prefix_def lookup_append split: option.splits)

lemma store_at:
  "store fs p v = Inr fs' \<Longrightarrow> lookup fs' (p @ r) = lookup v r"
proof (induction fs p v arbitrary: fs' rule: store.induct)
  case (1 n v)
  then show ?case by simp
next
  case (2 c m x xs v)
  then show ?case by simp
next
  case (3 es x xs v)
  show ?case
  proof (cases "xs = []")
    case True
    with 3 show ?thesis by (auto simp: update_conv')
  next
    case False
    with "3.prems" obtain child child' where
      c: "map_of es x = Some child" and s: "store child xs v = Inr child'"
      and fs': "fs' = Dir (AList.update x child' es)"
      by (auto split: option.splits sum.splits)
    from "3.IH" [OF False c s] show ?thesis using fs' by (simp add: update_conv')
  qed
qed

lemma store_elsewhere:
  "store fs p v = Inr fs' \<Longrightarrow> \<not> prefix p q \<Longrightarrow> \<not> prefix q p \<Longrightarrow> lookup fs' q = lookup fs q"
proof (induction fs p v arbitrary: fs' q rule: store.induct)
  case (1 n v)
  then show ?case by simp
next
  case (2 c m x xs v)
  then show ?case by simp
next
  case (3 es x xs v)
  from "3.prems"(3) obtain y ys where q: "q = y # ys" by (cases q) auto
  show ?case
  proof (cases "xs = []")
    case True
    with "3.prems" q show ?thesis by (auto simp: update_conv')
  next
    case False
    with "3.prems" obtain child child' where
      c: "map_of es x = Some child" and s: "store child xs v = Inr child'"
      and fs': "fs' = Dir (AList.update x child' es)"
      by (auto split: option.splits sum.splits)
    show ?thesis
    proof (cases "y = x")
      case True
      with "3.prems" q have "\<not> prefix xs ys" "\<not> prefix ys xs" by auto
      from "3.IH" [OF False c s this] show ?thesis using fs' q True c by (simp add: update_conv')
    next
      case False
      then show ?thesis using fs' q by (simp add: update_conv')
    qed
  qed
qed

lemma store_above:
  "store fs p v = Inr fs' \<Longrightarrow> strict_prefix q p \<Longrightarrow>
     (\<exists>es. lookup fs' q = Some (Dir es)) \<and> (\<exists>es. lookup fs q = Some (Dir es))"
proof (induction fs p v arbitrary: fs' q rule: store.induct)
  case (1 n v)
  then show ?case by simp
next
  case (2 c m x xs v)
  then show ?case by simp
next
  case (3 es x xs v)
  show ?case
  proof (cases q)
    case Nil
    with "3.prems" show ?thesis by (auto split: if_splits option.splits sum.splits)
  next
    case (Cons y ys)
    with "3.prems"(2) have y: "y = x" and ys: "strict_prefix ys xs" by auto
    then have ne: "xs \<noteq> []" by auto
    with "3.prems" obtain child child' where
      c: "map_of es x = Some child" and s: "store child xs v = Inr child'"
      and fs': "fs' = Dir (AList.update x child' es)"
      by (auto split: option.splits sum.splits)
    from "3.IH" [OF ne c s ys] show ?thesis using fs' Cons y c by (simp add: update_conv')
  qed
qed

lemma lookup_mkchain: "lookup (mkchain xs) q = (if prefix q xs then Some (mkchain (drop (length q) xs)) else None)"
proof (induction xs arbitrary: q)
  case Nil
  show ?case by (cases q) simp_all
next
  case (Cons x xs)
  show ?case
  proof (cases q)
    case Nil
    then show ?thesis by simp
  next
    case (Cons y ys)
    then show ?thesis using Cons.IH [of ys] by simp
  qed
qed

lemma mkdirs_new: "mkdirs fs p = Inr fs' \<Longrightarrow> lookup fs p = None"
proof (induction fs p arbitrary: fs' rule: mkdirs.induct)
  case (1 n)
  then show ?case by simp
next
  case (2 c m x xs)
  then show ?case by simp
next
  case (3 es x xs)
  then show ?case by (auto split: option.splits sum.splits)
qed

lemma mkdirs_at: "mkdirs fs p = Inr fs' \<Longrightarrow> lookup fs' p = Some (Dir [])"
proof (induction fs p arbitrary: fs' rule: mkdirs.induct)
  case (1 n)
  then show ?case by simp
next
  case (2 c m x xs)
  then show ?case by simp
next
  case (3 es x xs)
  show ?case
  proof (cases "map_of es x")
    case None
    with "3.prems" show ?thesis by (auto simp: update_conv' lookup_mkchain)
  next
    case (Some child)
    with "3.prems" obtain child' where s: "mkdirs child xs = Inr child'"
      and fs': "fs' = Dir (AList.update x child' es)"
      by (auto split: sum.splits)
    from "3.IH" [OF Some s] show ?thesis using fs' by (simp add: update_conv')
  qed
qed

lemma mkdirs_elsewhere:
  "mkdirs fs p = Inr fs' \<Longrightarrow> \<not> prefix q p \<Longrightarrow> lookup fs' q = lookup fs q"
proof (induction fs p arbitrary: fs' q rule: mkdirs.induct)
  case (1 n)
  then show ?case by simp
next
  case (2 c m x xs)
  then show ?case by simp
next
  case (3 es x xs)
  from "3.prems"(2) obtain y ys where q: "q = y # ys" by (cases q) auto
  show ?case
  proof (cases "map_of es x")
    case None
    with "3.prems" q show ?thesis by (auto simp: update_conv' lookup_mkchain)
  next
    case (Some child)
    with "3.prems" obtain child' where s: "mkdirs child xs = Inr child'"
      and fs': "fs' = Dir (AList.update x child' es)"
      by (auto split: sum.splits)
    show ?thesis
    proof (cases "y = x")
      case True
      with "3.prems" q have "\<not> prefix ys xs" by auto
      from "3.IH" [OF Some s this] show ?thesis using fs' q True Some by (simp add: update_conv')
    next
      case False
      then show ?thesis using fs' q by (simp add: update_conv')
    qed
  qed
qed

lemma mkdirs_above:
  "mkdirs fs p = Inr fs' \<Longrightarrow> prefix q p \<Longrightarrow>
     (\<exists>es. lookup fs' q = Some (Dir es)) \<and> file_at fs q = None"
proof (induction fs p arbitrary: fs' q rule: mkdirs.induct)
  case (1 n)
  then show ?case by simp
next
  case (2 c m x xs)
  then show ?case by simp
next
  case (3 es x xs)
  show ?case
  proof (cases q)
    case Nil
    with "3.prems" show ?thesis by (auto simp: file_at_def split: option.splits sum.splits)
  next
    case (Cons y ys)
    with "3.prems"(2) have y: "y = x" and ys: "prefix ys xs" by auto
    show ?thesis
    proof (cases "map_of es x")
      case None
      with "3.prems" Cons y ys show ?thesis
        by (cases "drop (length ys) xs") (auto simp: update_conv' lookup_mkchain file_at_def)
    next
      case (Some child)
      with "3.prems" obtain child' where s: "mkdirs child xs = Inr child'"
        and fs': "fs' = Dir (AList.update x child' es)"
        by (auto split: sum.splits)
      from "3.IH" [OF Some s ys] show ?thesis using fs' Cons y Some
        by (simp add: update_conv' file_at_def)
    qed
  qed
qed

lemma mkdirs_file_at: "mkdirs fs p = Inr fs' \<Longrightarrow> file_at fs' q = file_at fs q"
proof (cases "prefix q p")
  case True
  assume "mkdirs fs p = Inr fs'"
  from mkdirs_above [OF this True] show ?thesis by (auto simp: file_at_def)
next
  case False
  assume "mkdirs fs p = Inr fs'"
  from mkdirs_elsewhere [OF this False] show ?thesis by (simp add: file_at_def)
qed

lemma basename_no_sep: "47 \<notin> set (basename p)"
  unfolding basename_def using set_takeWhileD [of 47 "\<lambda>c. c \<noteq> 47" "rev p"] by auto

lemma splitext_append: "splitext b = (stem, ext) \<Longrightarrow> stem @ ext = b"
proof -
  assume a: "splitext b = (stem, ext)"
  let ?e = "rev (takeWhile (\<lambda>c. c \<noteq> 46) (rev b))"
  show ?thesis
  proof (cases "46 \<notin> set b \<or> 47 \<in> set ?e
      \<or> filter (\<lambda>c. c \<noteq> 46) (basename (take (length b - length ?e - 1) b)) = []")
    case True
    with a show ?thesis by (auto simp: splitext_def Let_def)
  next
    case False
    then have dot: "46 \<in> set b" by simp
    from False a have stem: "stem = take (length b - length ?e - 1) b" and ext: "ext = 46 # ?e"
      by (auto simp: splitext_def Let_def)
    have "rev b = takeWhile (\<lambda>c. c \<noteq> 46) (rev b) @ dropWhile (\<lambda>c. c \<noteq> 46) (rev b)" by simp
    moreover have ne: "dropWhile (\<lambda>c. c \<noteq> 46) (rev b) \<noteq> []"
      using dot by (auto simp: dropWhile_eq_Nil_conv)
    then obtain d ds where dds: "dropWhile (\<lambda>c. c \<noteq> 46) (rev b) = d # ds"
      by (cases "dropWhile (\<lambda>c. c \<noteq> 46) (rev b)") auto
    from hd_dropWhile [OF ne] dds have "d = 46" by simp
    with dds have ds: "dropWhile (\<lambda>c. c \<noteq> 46) (rev b) = 46 # ds" by simp
    ultimately have "rev b = rev ?e @ 46 # ds" by simp
    then have b: "b = rev ds @ 46 # ?e" by (metis rev_rev_ident rev_append rev.simps(2) append.assoc append_Cons append_Nil)
    have "length b - length ?e - 1 = length (rev ds)"
      by (subst (1) b) simp
    then have "stem = rev ds" using stem b by (metis append_eq_conv_conj)
    then show ?thesis using ext b by simp
  qed
qed

lemma splitext_sets:
  assumes "splitext b = (stem, ext)"
  shows "set stem \<subseteq> set b" and "set ext \<subseteq> set b"
  using splitext_append [OF assms] by auto

lemma decimal_digits: "set (decimal n) \<subseteq> {48..57}"
proof (induction n rule: decimal.induct)
  case (1 n)
  show ?case
  proof (cases "n < 10")
    case True
    then show ?thesis by (subst decimal.simps) auto
  next
    case False
    have "n mod 10 < 10" by simp
    then have "48 + n mod 10 \<in> {48..57}" by auto
    with 1 False show ?thesis by (subst decimal.simps) auto
  qed
qed

lemma decimal_no_sep: "47 \<notin> set (decimal n)"
  using decimal_digits [of n] by auto

lemma lit_BACKUP_no_sep: "47 \<notin> set (lit ''_BACKUP_'')"
  by (simp add: lit_def)

lemma components_strip:
  "components (rev (dropWhile (\<lambda>c. c = 47) (rev x))) = components x"
proof (induction x rule: rev_induct)
  case Nil
  show ?case by simp
next
  case (snoc c x)
  then show ?case by (cases "c = 47") (simp_all add: components_snoc_sep)
qed

lemma components_dirname_join:
  assumes "valid_name n"
  shows "components (dirname (join a n)) = components a"
proof -
  have n: "\<And>c. c \<in> set (rev n) \<Longrightarrow> c \<noteq> 47" using assms by (auto simp: valid_name_def)
  have hd: "hd n \<noteq> 47" using assms by (cases n) (auto simp: valid_name_def)
  define a' where "a' = (if a = [] \<or> last a = 47 then a else a @ [47])"
  have j: "join a n = a' @ n" using hd assms by (auto simp: join_def a'_def valid_name_def)
  have ca': "components a' = components a" by (simp add: a'_def components_snoc_sep)
  have drop: "dropWhile (\<lambda>c. c \<noteq> 47) (rev (a' @ n)) = dropWhile (\<lambda>c. c \<noteq> 47) (rev a')"
    using dropWhile_append2 [of "rev n" "\<lambda>c. c \<noteq> 47" "rev a'"] n by simp
  have "dropWhile (\<lambda>c. c \<noteq> 47) (rev a') = rev a'"
  proof (cases "a' = []")
    case True
    then show ?thesis by simp
  next
    case False
    then have "last a' = 47" by (auto simp: a'_def split: if_splits)
    then have "hd (rev a') = 47" using False by (simp add: hd_rev)
    then show ?thesis using False by (cases "rev a'") auto
  qed
  with drop have head: "rev (dropWhile (\<lambda>c. c \<noteq> 47) (rev (join a n))) = a'" by (simp add: j)
  show ?thesis
    unfolding dirname_def Let_def head using ca' by (simp add: components_strip)
qed

subsection \<open>The backup of one script\<close>

lemma resolve_File:
  "resolve fs p = Some (File c m) \<longleftrightarrow> p \<noteq> [] \<and> last p \<noteq> 47 \<and> lookup fs (components p) = Some (File c m)"
  by (auto simp: resolve_def split: option.splits node.splits)

lemma resolve_Dir:
  "resolve fs p = Some (Dir es) \<longleftrightarrow> p \<noteq> [] \<and> lookup fs (components p) = Some (Dir es)"
  by (auto simp: resolve_def split: option.splits node.splits)

lemma resolve_None:
  "p \<noteq> [] \<Longrightarrow> last p \<noteq> 47 \<Longrightarrow> resolve fs p = None \<longleftrightarrow> lookup fs (components p) = None"
  by (auto simp: resolve_def split: option.splits node.splits)

lemma resolve_name:
  "p \<noteq> [] \<Longrightarrow> last p \<noteq> 47 \<Longrightarrow> resolve fs p = lookup fs (components p)"
  by (auto simp: resolve_def split: option.splits node.splits)

lemma file_at_lookup: "file_at fs q = Some (c, m) \<longleftrightarrow> lookup fs q = Some (File c m)"
  by (auto simp: file_at_def split: option.splits node.splits)

lemma store_file_at:
  assumes "store fs p (File c m) = Inr fs'" and "\<not> dir_at fs p"
  shows "file_at fs' q = (if q = p then Some (c, m) else file_at fs q)"
proof (cases "q = p")
  case True
  then show ?thesis using store_at [OF assms(1), of "[]"] by (simp add: file_at_def)
next
  case False
  consider (below) "strict_prefix p q" | (above) "strict_prefix q p"
    | (apart) "\<not> prefix p q" "\<not> prefix q p"
    using False by (auto simp: strict_prefix_def)
  then show ?thesis
  proof cases
    case below
    then obtain r where q: "q = p @ r" and r: "r \<noteq> []"
      by (auto simp: strict_prefix_def prefix_def)
    have new: "lookup fs' q = None" using store_at [OF assms(1), of r] q r by (cases r) auto
    have "file_at fs q = None"
    proof (cases "lookup fs p")
      case None
      then show ?thesis using q by (simp add: file_at_def lookup_append)
    next
      case (Some a)
      then show ?thesis using assms(2) q r
        by (cases a; cases r) (simp_all add: file_at_def lookup_append dir_at_def)
    qed
    with new False show ?thesis by (simp add: file_at_def)
  next
    case above
    from store_above [OF assms(1) above] False show ?thesis by (auto simp: file_at_def)
  next
    case apart
    from store_elsewhere [OF assms(1) apart] False show ?thesis by (simp add: file_at_def)
  qed
qed

lemma copy2_file_at:
  assumes "copy2 fs src dst = Inr fs'" and "\<not> isdir fs dst"
  shows "\<exists>c m. resolve fs src = Some (File c m)
           \<and> (\<forall>q. file_at fs' q = (if q = components dst then Some (c, m) else file_at fs q))"
proof -
  from assms obtain c m where src: "resolve fs src = Some (File c m)"
    and st: "store fs (components dst) (File c m) = Inr fs'" and ne: "dst \<noteq> []"
    by (auto simp: copy2_def Let_def split: if_splits option.splits node.splits)
  have "\<not> dir_at fs (components dst)"
    using assms(2) ne by (auto simp: isdir_def dir_at_def resolve_def split: option.splits node.splits)
  from store_file_at [OF st this] src show ?thesis by blast
qed

lemma valid_backup_file_name:
  assumes "splitext (basename script_path) = (file_name, file_extension)"
  shows "valid_name ((file_name @ lit ''_BACKUP_'' @ unique_time now) @ file_extension)"
proof -
  have "47 \<notin> set file_name" "47 \<notin> set file_extension"
    using splitext_sets [OF assms] basename_no_sep [of script_path] by auto
  then show ?thesis
    using decimal_no_sep lit_BACKUP_no_sep by (auto simp: valid_name_def unique_time_def lit_def)
qed

lemma backup_file_path_components:
  "components (backup_file_path lk now script_path)
     = components (get_backup_folder_for_script lk script_path)
       @ [(fst (splitext (basename script_path)) @ lit ''_BACKUP_'' @ unique_time now)
            @ snd (splitext (basename script_path))]"
  and backup_file_path_dirname:
  "components (dirname (backup_file_path lk now script_path))
     = components (get_backup_folder_for_script lk script_path)"
  and backup_file_path_last:
  "backup_file_path lk now script_path \<noteq> [] \<and> last (backup_file_path lk now script_path) \<noteq> 47"
proof -
  obtain file_name file_extension where s: "splitext (basename script_path) = (file_name, file_extension)"
    by (cases "splitext (basename script_path)")
  note v = valid_backup_file_name [OF s, of now]
  show "components (backup_file_path lk now script_path)
     = components (get_backup_folder_for_script lk script_path)
       @ [(fst (splitext (basename script_path)) @ lit ''_BACKUP_'' @ unique_time now)
            @ snd (splitext (basename script_path))]"
    using components_join [OF v] s by (simp add: backup_file_path_def)
  show "components (dirname (backup_file_path lk now script_path))
     = components (get_backup_folder_for_script lk script_path)"
    using components_dirname_join [OF v] s by (simp add: backup_file_path_def)
  show "backup_file_path lk now script_path \<noteq> [] \<and> last (backup_file_path lk now script_path) \<noteq> 47"
    using join_not_Nil [OF v] last_join [OF v] last_valid_name [OF v] s
    by (simp add: backup_file_path_def)
qed

lemma backup_script_try_file_at:
  assumes ok: "backup_script_try lk now script_path fs = Returned fs'"
    and fresh: "\<not> path_exists fs (backup_file_path lk now script_path)"
  shows "\<exists>c m. resolve fs script_path = Some (File c m)
           \<and> (\<forall>q. file_at fs' q
                  = (if q = components (backup_file_path lk now script_path) then Some (c, m)
                     else file_at fs q))"
proof -
  let ?bp = "backup_file_path lk now script_path"
  let ?cb = "components ?bp"
  let ?cf = "components (get_backup_folder_for_script lk script_path)"
  obtain fs1 where fs1: "fs1 = fs \<or> mkdirs fs (components (dirname ?bp)) = Inr fs1"
    and cp: "copy2 fs1 script_path ?bp = Inr fs'"
    using ok by (auto simp: backup_script_try_def Let_def makedirs_def split: if_splits sum.splits)
  have none: "lookup fs ?cb = None"
    using fresh backup_file_path_last [of lk now script_path]
    by (simp add: path_exists_def resolve_None)
  have cb: "?cb = ?cf @ [last ?cb]" using backup_file_path_components [of lk now script_path] by simp
  have look1: "lookup fs1 ?cb = None"
  proof -
    { assume mk: "mkdirs fs (components (dirname ?bp)) = Inr fs1"
      have "\<not> prefix ?cb ?cf" using cb by (metis append_prefixD prefix_order.antisym prefixI append_self_conv not_Cons_self2)
      with mkdirs_elsewhere [OF mk, of ?cb] none have ?thesis by (simp add: backup_file_path_dirname) }
    with fs1 none show ?thesis by blast
  qed
  have files1: "file_at fs1 q = file_at fs q" for q
    using fs1 mkdirs_file_at by blast
  have "\<not> isdir fs1 ?bp"
    using look1 by (simp add: isdir_def resolve_def)
  from copy2_file_at [OF cp this] obtain c m where
    src: "resolve fs1 script_path = Some (File c m)"
    and all: "\<And>q. file_at fs' q = (if q = ?cb then Some (c, m) else file_at fs1 q)"
    by blast
  have "file_at fs1 (components script_path) = Some (c, m)"
    using src by (simp add: resolve_File file_at_lookup)
  then have "file_at fs (components script_path) = Some (c, m)"
    using files1 [of "components script_path"] by simp
  then have "resolve fs script_path = Some (File c m)"
    using src by (simp add: resolve_File file_at_lookup)
  with all files1 show ?thesis by simp
qed

subsection \<open>The backup of the tree\<close>

lemma dir_at_lookup: "dir_at fs q \<longleftrightarrow> (\<exists>es. lookup fs q = Some (Dir es))"
  by (auto simp: dir_at_def split: option.splits node.splits)

lemma resolve_join:
  "valid_name n \<Longrightarrow> resolve fs (join a n) = lookup fs (components a @ [n])"
  using resolve_name [of "join a n" fs] join_not_Nil [of n a] last_join [of n a] last_valid_name [of n]
  by (simp add: components_join)

lemma copy_item_effect:
  assumes step: "(if isdir fs s then copytree fs s d else copy2 fs s d) = Inr fs'"
    and new: "lookup fs (components d) = None"
  shows "\<exists>n. resolve fs s = Some n
           \<and> (\<forall>r. lookup fs' (components d @ r) = lookup n r)
           \<and> (\<forall>q. \<not> prefix (components d) q \<longrightarrow> \<not> prefix q (components d) \<longrightarrow> lookup fs' q = lookup fs q)
           \<and> (\<forall>q. strict_prefix q (components d) \<longrightarrow> dir_at fs' q)"
proof (cases "isdir fs s")
  case True
  with step have ct: "copytree fs s d = Inr fs'" by simp
  then obtain es fs1 where src: "resolve fs s = Some (Dir es)"
    and mk: "mkdirs fs (components d) = Inr fs1"
    and st: "store fs1 (components d) (Dir es) = Inr fs'"
    by (auto simp: copytree_def makedirs_def split: option.splits node.splits sum.splits if_splits)
  have "lookup fs' q = lookup fs q" if "\<not> prefix (components d) q" "\<not> prefix q (components d)" for q
    using store_elsewhere [OF st that] mkdirs_elsewhere [OF mk that(2)] by simp
  moreover have "dir_at fs' q" if "strict_prefix q (components d)" for q
    using store_above [OF st that] by (simp add: dir_at_lookup)
  ultimately show ?thesis using src store_at [OF st] by blast
next
  case False
  with step have cp: "copy2 fs s d = Inr fs'" by simp
  have nd: "\<not> isdir fs d" using new by (simp add: isdir_def resolve_def)
  from cp nd obtain c m where src: "resolve fs s = Some (File c m)"
    and st: "store fs (components d) (File c m) = Inr fs'"
    by (auto simp: copy2_def Let_def split: if_splits option.splits node.splits)
  have "lookup fs' q = lookup fs q" if "\<not> prefix (components d) q" "\<not> prefix q (components d)" for q
    using store_elsewhere [OF st that] by simp
  moreover have "dir_at fs' q" if "strict_prefix q (components d)" for q
    using store_above [OF st that] by (simp add: dir_at_lookup)
  ultimately show ?thesis using src store_at [OF st] by blast
qed

lemma apart_snoc:
  assumes "\<not> prefix cs cd" and "\<not> prefix cd cs"
  shows "\<not> prefix (cd @ [n]) (cs @ r)" and "\<not> prefix (cs @ r) (cd @ [n])"
proof -
  show "\<not> prefix (cd @ [n]) (cs @ r)"
  proof
    assume "prefix (cd @ [n]) (cs @ r)"
    then have "prefix cd (cs @ r)" by (metis append_prefixD)
    moreover have "prefix cs (cs @ r)" by simp
    ultimately show False using assms by (metis prefix_same_cases)
  qed
  show "\<not> prefix (cs @ r) (cd @ [n])"
  proof
    assume "prefix (cs @ r) (cd @ [n])"
    then have "prefix cs (cd @ [n])" by (metis append_prefixD)
    moreover have "prefix cd (cd @ [n])" by simp
    ultimately show False using assms by (metis prefix_same_cases)
  qed
qed

lemma copy_items_effect:
  assumes "copy_items src dst items fs = Returned fs'"
    and "distinct items" and "\<forall>n\<in>set items. valid_name n"
    and "\<not> prefix (components src) (components dst)"
    and "\<not> prefix (components dst) (components src)"
    and "\<forall>n\<in>set items. lookup fs (components dst @ [n]) = None"
  shows "(\<forall>n r. lookup fs' (components dst @ n # r)
             = (if n \<in> set items then lookup fs (components src @ n # r)
                else lookup fs (components dst @ n # r)))
         \<and> (\<forall>q. \<not> prefix (components dst) q \<longrightarrow> \<not> prefix q (components dst)
               \<longrightarrow> lookup fs' q = lookup fs q)
         \<and> (\<forall>q. prefix q (components dst) \<longrightarrow> dir_at fs q \<longrightarrow> dir_at fs' q)"
  using assms
proof (induction items arbitrary: fs)
  case Nil
  then show ?case by simp
next
  case (Cons item items)
  let ?cs = "components src" and ?cd = "components dst"
  have v: "valid_name item" using Cons.prems(3) by simp
  have d: "components (join dst item) = ?cd @ [item]" using components_join [OF v] .
  from Cons.prems(1) obtain fs1 where
    step: "(if isdir fs (join src item) then copytree fs (join src item) (join dst item)
            else copy2 fs (join src item) (join dst item)) = Inr fs1"
    and rest: "copy_items src dst items fs1 = Returned fs'"
    by (auto simp: Let_def split: sum.splits)
  have new: "lookup fs (components (join dst item)) = None" using Cons.prems(6) d by simp
  from copy_item_effect [OF step new] obtain n where
    n: "resolve fs (join src item) = Some n"
    and inside: "\<And>r. lookup fs1 (?cd @ item # r) = lookup n r"
    and apart: "\<And>q. \<not> prefix (?cd @ [item]) q \<Longrightarrow> \<not> prefix q (?cd @ [item]) \<Longrightarrow> lookup fs1 q = lookup fs q"
    and above: "\<And>q. strict_prefix q (?cd @ [item]) \<Longrightarrow> dir_at fs1 q"
    unfolding d by auto
  have n': "lookup fs (?cs @ [item]) = Some n" using n resolve_join [OF v] by simp
  have other: "lookup fs1 (?cd @ m # r) = lookup fs (?cd @ m # r)" if "m \<noteq> item" for m r
    using that by (intro apart) (auto simp: prefix_def)
  have source: "lookup fs1 (?cs @ r) = lookup fs (?cs @ r)" for r
    using apart_snoc [OF Cons.prems(4,5)] by (intro apart) auto
  have "\<forall>n\<in>set items. lookup fs1 (?cd @ [n]) = None"
  proof
    fix m assume m: "m \<in> set items"
    then have "m \<noteq> item" using Cons.prems(2) by auto
    from other [OF this, of "[]"] show "lookup fs1 (?cd @ [m]) = None"
      using Cons.prems(6) m by simp
  qed
  from Cons.IH [OF rest _ _ Cons.prems(4,5) this] Cons.prems(2,3)
  have IH1: "\<And>m r. lookup fs' (?cd @ m # r)
             = (if m \<in> set items then lookup fs1 (?cs @ m # r) else lookup fs1 (?cd @ m # r))"
    and IH2: "\<And>q. \<not> prefix ?cd q \<Longrightarrow> \<not> prefix q ?cd \<Longrightarrow> lookup fs' q = lookup fs1 q"
    and IH3: "\<And>q. prefix q ?cd \<Longrightarrow> dir_at fs1 q \<Longrightarrow> dir_at fs' q"
    by auto
  have c1: "lookup fs' (?cd @ m # r)
             = (if m \<in> set (item # items) then lookup fs (?cs @ m # r) else lookup fs (?cd @ m # r))" for m r
  proof (cases "m \<in> set items")
    case True
    then show ?thesis using IH1 [of m r] source [of "m # r"] by simp
  next
    case False
    show ?thesis
    proof (cases "m = item")
      case True
      have "lookup fs (?cs @ item # r) = lookup n r"
        using n' lookup_append [of fs "?cs @ [item]" r] by simp
      then show ?thesis using IH1 [of m r] False True inside [of r] by simp
    next
      case ne: False
      then show ?thesis using IH1 [of m r] False other [of m r] by simp
    qed
  qed
  have c2: "lookup fs' q = lookup fs q" if "\<not> prefix ?cd q" "\<not> prefix q ?cd" for q
  proof -
    have "\<not> prefix (?cd @ [item]) q" using that(1) by (metis append_prefixD)
    moreover have "\<not> prefix q (?cd @ [item])" using that by (auto simp: prefix_snoc)
    ultimately show ?thesis using IH2 [OF that] apart [of q] by simp
  qed
  have c3: "dir_at fs' q" if "prefix q ?cd" "dir_at fs q" for q
  proof -
    have "strict_prefix q (?cd @ [item])" using that(1) by (auto simp: strict_prefix_def prefix_def)
    then show ?thesis using IH3 [OF that(1)] above by simp
  qed
  from c1 c2 c3 show ?case by blast
qed

lemma copy_directory_effect:
  assumes ok: "copy_directory src dst fs = Returned fs'"
    and fresh: "\<not> path_exists fs dst"
    and src: "resolve fs src = Some (Dir es)"
    and names: "distinct (map fst es)" "\<forall>n\<in>set (map fst es). valid_name n"
    and outside: "\<not> prefix (components src) (components dst)"
  shows "(\<forall>r. r \<noteq> [] \<longrightarrow> lookup fs' (components dst @ r) = lookup fs (components src @ r))
         \<and> dir_at fs' (components dst)
         \<and> (\<forall>q. \<not> prefix (components dst) q \<longrightarrow> \<not> prefix q (components dst)
               \<longrightarrow> lookup fs' q = lookup fs q)
         \<and> (\<forall>q. \<not> prefix (components dst) q \<longrightarrow> file_at fs' q = file_at fs q)"
proof -
  let ?cs = "components src" and ?cd = "components dst"
  from ok fresh obtain fs0 items where
    mk: "mkdirs fs ?cd = Inr fs0"
    and ls: "listdir fs0 src = Inr items"
    and cp: "copy_items src dst items fs0 = Returned fs'"
    by (auto simp: copy_directory_def makedirs_def split: sum.splits if_splits)
  have look_src: "lookup fs ?cs = Some (Dir es)" and src_ne: "src \<noteq> []"
    using src by (simp_all add: resolve_Dir)
  have dst_new: "lookup fs ?cd = None" using mkdirs_new [OF mk] .
  have apart: "\<not> prefix ?cd ?cs"
    using lookup_prefix_Some [OF look_src, of ?cd] dst_new by auto
  have keep: "lookup fs0 (?cs @ r) = lookup fs (?cs @ r)" for r
  proof (rule mkdirs_elsewhere [OF mk])
    show "\<not> prefix (?cs @ r) ?cd" using outside by (metis append_prefixD)
  qed
  have "lookup fs0 ?cs = Some (Dir es)" using keep [of "[]"] look_src by simp
  then have "resolve fs0 src = Some (Dir es)" using src_ne by (simp add: resolve_Dir)
  with ls have items: "items = map fst es" by (simp add: listdir_def)
  have empty: "lookup fs0 (?cd @ r) = (if r = [] then Some (Dir []) else None)" for r
    using mkdirs_at [OF mk] by (cases r) (simp_all add: lookup_append)
  have "\<forall>n\<in>set items. lookup fs0 (?cd @ [n]) = None" using empty by simp
  from copy_items_effect [OF cp _ _ outside apart this] names items
  have e1: "\<And>n r. lookup fs' (?cd @ n # r)
             = (if n \<in> set items then lookup fs0 (?cs @ n # r) else lookup fs0 (?cd @ n # r))"
    and e2: "\<And>q. \<not> prefix ?cd q \<Longrightarrow> \<not> prefix q ?cd \<Longrightarrow> lookup fs' q = lookup fs0 q"
    and e3: "\<And>q. prefix q ?cd \<Longrightarrow> dir_at fs0 q \<Longrightarrow> dir_at fs' q"
    by auto
  have c1: "lookup fs' (?cd @ r) = lookup fs (?cs @ r)" if "r \<noteq> []" for r
  proof -
    from that obtain n r' where r: "r = n # r'" by (cases r) auto
    show ?thesis
    proof (cases "n \<in> set items")
      case True
      then show ?thesis using e1 [of n r'] keep [of r] r by simp
    next
      case False
      then have "map_of es n = None" using items by (simp add: map_of_eq_None_iff)
      then have "lookup fs (?cs @ n # r') = None" using look_src by (simp add: lookup_append)
      then show ?thesis using e1 [of n r'] False empty [of r] r by simp
    qed
  qed
  have dirs0: "dir_at fs0 q" if "prefix q ?cd" for q
    using mkdirs_above [OF mk that] by (simp add: dir_at_lookup)
  have c2: "dir_at fs' ?cd" using e3 [of ?cd] dirs0 [of ?cd] by simp
  have c3: "lookup fs' q = lookup fs q" if "\<not> prefix ?cd q" "\<not> prefix q ?cd" for q
    using e2 [OF that] mkdirs_elsewhere [OF mk that(2)] by simp
  have c4: "file_at fs' q = file_at fs q" if "\<not> prefix ?cd q" for q
  proof (cases "prefix q ?cd")
    case True
    have "dir_at fs' q" using e3 [OF True] dirs0 [OF True] by simp
    then have "file_at fs' q = None" by (auto simp: file_at_def dir_at_lookup)
    then show ?thesis using mkdirs_above [OF mk True] by simp
  next
    case False
    from c3 [OF that False] show ?thesis by (simp add: file_at_def)
  qed
  from c1 c2 c3 c4 show ?thesis by blast
qed

lemma undecimal_decimal: "undecimal (decimal n) = n"
proof (induction n rule: decimal.induct)
  case (1 n)
  show ?case
  proof (cases "n < 10")
    case True
    then show ?thesis by (subst decimal.simps) (simp add: undecimal_def)
  next
    case False
    with 1 have "undecimal (decimal (n div 10)) = n div 10" by simp
    with False show ?thesis by (subst decimal.simps) (simp add: undecimal_def)
  qed
qed

lemma decimal_inj: "decimal n = decimal m \<Longrightarrow> n = m"
  by (metis undecimal_decimal)

lemma valid_backup_directory_name: "valid_name (lit ''ScriptTree_BACKUP_'' @ unique_time now)"
  using decimal_no_sep [of "nat \<lfloor>now\<rfloor>"] by (simp add: valid_name_def unique_time_def lit_def)

lemma backup_directory_path_components:
  "components (backup_directory_path lk now)
     = components (tree_backup_folder lk) @ [lit ''ScriptTree_BACKUP_'' @ unique_time now]"
  using components_join [OF valid_backup_directory_name] by (simp add: backup_directory_path_def)

lemma unique_time_apart:
  assumes "0 \<le> now" and "now + 1 < now'"
  shows "unique_time now \<noteq> unique_time now'"
proof
  assume "unique_time now = unique_time now'"
  then have "nat \<lfloor>now\<rfloor> = nat \<lfloor>now'\<rfloor>" unfolding unique_time_def by (rule decimal_inj)
  with assms show False by linarith
qed

lemma backup_directories_apart:
  assumes "0 \<le> now" and "now + 1 < now'"
  shows "backup_directory_path lk now \<noteq> backup_directory_path lk now'"
    and "\<not> prefix (components (backup_directory_path lk now)) (components (backup_directory_path lk now'))"
    and "\<not> prefix (components (backup_directory_path lk now')) (components (backup_directory_path lk now))"
proof -
  from unique_time_apart [OF assms] have ne: "unique_time now \<noteq> unique_time now'" .
  show "\<not> prefix (components (backup_directory_path lk now)) (components (backup_directory_path lk now'))"
    using ne by (simp add: backup_directory_path_components)
  show "\<not> prefix (components (backup_directory_path lk now')) (components (backup_directory_path lk now))"
    using ne by (simp add: backup_directory_path_components)
  then show "backup_directory_path lk now \<noteq> backup_directory_path lk now'" by auto
qed

subsection \<open>The examples\<close>

lemma lk_example_folders:
  "script_backup_folder lk_example = lit ''/d/ScriptTree/Maya/ScriptTree_ScriptBackup''"
  "tree_backup_folder lk_example = lit ''/d/ScriptTree/Maya/ScriptTree_TreeBackup''"
  by (simp_all add: lk_example_def ScriptTreeConstants_def join_def replace_backslash_def lit_def)

lemma unique_time_example: "unique_time (11/2) = lit ''5''" "unique_time (23/4) = lit ''5''"
  by (simp_all add: unique_time_def decimal.simps lit_def)

lemma backup_file_path_example:
  "backup_file_path lk_example (11/2) (lit ''/s/a.py'')
     = lit ''/d/ScriptTree/Maya/ScriptTree_ScriptBackup/a/a_BACKUP_5.py''"
  "backup_file_path lk_example (23/4) (lit ''/s/a.py'')
     = lit ''/d/ScriptTree/Maya/ScriptTree_ScriptBackup/a/a_BACKUP_5.py''"
  by (simp_all add: backup_file_path_def get_backup_folder_for_script_def lk_example_folders
      unique_time_example)
     (simp_all add: lit_def basename_def splitext_def join_def)

lemma backup_directory_path_example:
  "backup_directory_path lk_example (11/2) = lit ''/d/ScriptTree/Maya/ScriptTree_TreeBackup/ScriptTree_BACKUP_5''"
  "backup_directory_path lk_example (23/4) = lit ''/d/ScriptTree/Maya/ScriptTree_TreeBackup/ScriptTree_BACKUP_5''"
  by (simp_all add: backup_directory_path_def lk_example_folders unique_time_example)
     (simp_all add: lit_def join_def)

lemmas fs_example_defs = fs_scripts_def fs_script_saved_def fs_blocked_def fs_tree_saved_def
  fs_tree_saved_twice_def scripts_example_def under_script_tree_def

lemmas fs_eval = lit_def dirname_def basename_def join_def components_def resolve_def
  path_exists_def isdir_def listdir_def makedirs_def copy2_def copytree_def

lemma backup_script_try_example:
  "backup_script_try lk_example (11/2) (lit ''/s/a.py'') fs_scripts = Returned fs_script_saved"
  "backup_script_try lk_example (23/4) (lit ''/s/a.py'') fs_script_saved = Returned fs_script_saved"
  "backup_script_try lk_example (11/2) (lit ''/s/a.py'') fs_blocked = Raised NotADirectoryError fs_blocked"
  unfolding backup_script_try_def backup_file_path_example
  by (simp_all add: fs_example_defs fs_eval)

lemma path_exists_example:
  "path_exists fs_scripts (lit ''/s/a.py'')"
  "path_exists fs_script_saved (lit ''/s/a.py'')"
  "path_exists fs_blocked (lit ''/s/a.py'')"
  "\<not> path_exists fs_scripts (lit ''/s/new.py'')"
  "resolve fs_scripts (lit ''/s/a.py'') = Some (File (lit ''x'') 1)"
  "\<not> path_exists fs_scripts (lit ''/d/ScriptTree/Maya/ScriptTree_ScriptBackup/a/a_BACKUP_5.py'')"
  "\<not> path_exists fs_scripts (lit ''/d/ScriptTree/Maya/ScriptTree_TreeBackup/ScriptTree_BACKUP_5'')"
  by (simp_all add: fs_example_defs fs_eval)

lemma copy_directory_example:
  "copy_directory (lit ''/s'') (lit ''/d/ScriptTree/Maya/ScriptTree_TreeBackup/ScriptTree_BACKUP_5'') fs_scripts
     = Returned fs_tree_saved"
  "copy_directory (lit ''/o'') (lit ''/d/ScriptTree/Maya/ScriptTree_TreeBackup/ScriptTree_BACKUP_5'') fs_tree_saved
     = Returned fs_tree_saved_twice"
  "copy_directory (lit ''/none'') (lit ''/d/ScriptTree/Maya/ScriptTree_TreeBackup/ScriptTree_BACKUP_5'') fs_tree_saved
     = Raised FileNotFoundError fs_tree_saved"
  by (simp_all add: copy_directory_def fs_example_defs fs_eval)

lemma backup_tree_example:
  "backup_tree lk_example (11/2) (lit ''/s'') \<lparr>files = fs_scripts, log_records = []\<rparr>
     = Returned \<lparr>files = fs_tree_saved, log_records = [tree_saved_record]\<rparr>"
  by (simp add: backup_tree_def backup_directory_path_example copy_directory_example
      logging_info_def emit_def tree_saved_record_def)
     (simp add: lit_def)

section \<open>Results on the search filter\<close>

text \<open>
  Claim C1, as stated: a query of commas and whitespace only, such as \<open>",, ,"\<close>, gives an
  empty pattern set. The code does not discard the empty terms: at \<open>",, ,"\<close> each of the
  four pieces of the split gives the patterns \<open>**.py\<close> and \<open>**.mel\<close>, so the set of
  patterns is not empty.
\<close>

theorem only_commas_and_spaces_counterexample:
  "name_filters (filter_results \<lparr>search_bar = lit '',, ,'', name_filters = default_filter, expanded = False\<rparr>)
     = [lit ''**.py'', lit ''**.mel'', lit ''**.py'', lit ''**.mel'',
        lit ''**.py'', lit ''**.mel'', lit ''**.py'', lit ''**.mel'']
   \<and> set (name_filters (filter_results \<lparr>search_bar = lit '',, ,'', name_filters = default_filter, expanded = False\<rparr>))
     \<noteq> {}"
  by (simp add: filter_results_def Let_def re_sub_non_ascii_def lit_def append_filters_def replace_space_def)

text \<open>
  Claim C1, amended: for every non-empty query made of commas and space characters only,
  the filter computation gives the patterns \<open>**.py\<close> and \<open>**.mel\<close>, once for each piece
  of the split (one more than there are commas), so the pattern set is
  \<open>{**.py, **.mel}\<close> and never empty, and the tree is expanded.
\<close>

theorem only_commas_and_spaces:
  assumes "search_bar ui \<noteq> []" and "set (search_bar ui) \<subseteq> {44, 32}"
  shows "name_filters (filter_results ui)
           = concat (replicate (Suc (count_list (search_bar ui) 44)) [lit ''**.py'', lit ''**.mel''])
         \<and> set (name_filters (filter_results ui)) = {lit ''**.py'', lit ''**.mel''}
         \<and> expanded (filter_results ui)"
proof -
  let ?q = "search_bar ui"
  have ascii: "re_sub_non_ascii ?q = ?q"
    using assms(2) by (intro re_sub_non_ascii_ascii) auto
  have empty: "replace_space t = []" if "t \<in> set (str_split 44 ?q)" for t
  proof -
    have "set t \<subseteq> {32}" using str_split_pieces [OF that] assms(2) by auto
    then show ?thesis by (auto simp: replace_space_def filter_empty_conv)
  qed
  have "fold append_filters (str_split 44 ?q) []
          = concat (map (\<lambda>t. [lit ''**.py'', lit ''**.mel'']) (str_split 44 ?q))"
    unfolding fold_append_filters using empty
    by (auto intro!: arg_cong [where f = concat] simp: lit_def)
  then have filters: "name_filters (filter_results ui)
      = concat (replicate (Suc (count_list ?q 44)) [lit ''**.py'', lit ''**.mel''])"
    using assms(1) ascii
    by (simp add: filter_results_def Let_def concat_map_const length_str_split)
  have "expanded (filter_results ui)"
    using assms(1) ascii by (simp add: filter_results_def Let_def)
  moreover have "set (name_filters (filter_results ui)) = {lit ''**.py'', lit ''**.mel''}"
    unfolding filters by auto
  ultimately show ?thesis using filters by simp
qed

theorem only_commas_and_spaces_witness:
  "search_bar \<lparr>search_bar = lit '',, ,'', name_filters = default_filter, expanded = False\<rparr> \<noteq> []
   \<and> set (search_bar \<lparr>search_bar = lit '',, ,'', name_filters = default_filter, expanded = False\<rparr>) \<subseteq> {44, 32}
   \<and> set (name_filters (filter_results \<lparr>search_bar = lit '',, ,'', name_filters = default_filter, expanded = False\<rparr>))
       = {lit ''**.py'', lit ''**.mel''}
   \<and> expanded (filter_results \<lparr>search_bar = lit '',, ,'', name_filters = default_filter, expanded = False\<rparr>)"
proof -
  have h1: "search_bar \<lparr>search_bar = lit '',, ,'', name_filters = default_filter, expanded = False\<rparr> \<noteq> []"
    by (simp add: lit_def)
  have h2: "set (search_bar \<lparr>search_bar = lit '',, ,'', name_filters = default_filter, expanded = False\<rparr>) \<subseteq> {44, 32}"
    by (simp add: lit_def)
  show ?thesis using h1 h2 only_commas_and_spaces [OF h1 h2] by blast
qed

text \<open>
  Claim C2, as stated: each term has its whitespace removed. The code removes the space
  character only: at the query \<open>a<TAB>b\<close> the tab stays inside the patterns, where the
  wording of the claim gives \<open>*ab*.py\<close> and \<open>*ab*.mel\<close>.
\<close>

theorem whitespace_removal_counterexample:
  "re_sub_non_ascii (search_bar (ui_after_typing [97, 9, 98])) \<noteq> []
   \<and> name_filters (filter_results (ui_after_typing [97, 9, 98]))
       = [lit ''*a'' @ [9] @ lit ''b*.py'', lit ''*a'' @ [9] @ lit ''b*.mel'']
   \<and> spec_patterns [97, 9, 98] = {lit ''*ab*.py'', lit ''*ab*.mel''}
   \<and> set (name_filters (filter_results (ui_after_typing [97, 9, 98]))) \<noteq> spec_patterns [97, 9, 98]"
  by (simp add: filter_results_def Let_def re_sub_non_ascii_def lit_def append_filters_def
      replace_space_def ui_after_typing_def spec_patterns_def term_patterns_def is_whitespace_def
      doubleton_eq_iff)

text \<open>
  Claim C2, amended: for every query whose normalization is not empty, the filter
  computation splits the normalized query on the comma, removes the space characters
  (code point 32; any other whitespace stays) from each term and gives exactly the
  patterns \<open>*t*.py\<close> and \<open>*t*.mel\<close> for each term \<open>t\<close>, in the order of the terms, and
  the tree is expanded; whenever the only whitespace of the query is the space character
  this is the pattern set of the specification. The witness is the query \<open>"foo, bar"\<close>,
  which gives exactly \<open>*foo*.py\<close>, \<open>*foo*.mel\<close>, \<open>*bar*.py\<close> and \<open>*bar*.mel\<close>.
\<close>

theorem filter_results_patterns:
  assumes "re_sub_non_ascii (search_bar ui) \<noteq> []"
  shows "name_filters (filter_results ui)
           = concat (map (\<lambda>t. [lit ''*'' @ replace_space t @ lit ''*.py'',
                                 lit ''*'' @ replace_space t @ lit ''*.mel''])
                         (str_split 44 (re_sub_non_ascii (search_bar ui))))
         \<and> expanded (filter_results ui)
         \<and> ((\<forall>c\<in>set (search_bar ui). is_whitespace c \<longrightarrow> c = 32)
              \<longrightarrow> set (name_filters (filter_results ui)) = spec_patterns (search_bar ui))"
proof -
  let ?ts = "str_split 44 (re_sub_non_ascii (search_bar ui))"
  have filters: "name_filters (filter_results ui)
           = concat (map (\<lambda>t. [lit ''*'' @ replace_space t @ lit ''*.py'',
                                 lit ''*'' @ replace_space t @ lit ''*.mel'']) ?ts)"
    using assms by (simp add: filter_results_def Let_def fold_append_filters)
  have "expanded (filter_results ui)"
    using assms by (simp add: filter_results_def Let_def)
  moreover have "set (name_filters (filter_results ui)) = spec_patterns (search_bar ui)"
    if ws: "\<forall>c\<in>set (search_bar ui). is_whitespace c \<longrightarrow> c = 32"
  proof -
    have "filter (\<lambda>c. \<not> is_whitespace c) t = replace_space t" if "t \<in> set ?ts" for t
    proof (rule replace_space_whitespace)
      have "set t \<subseteq> set (search_bar ui)"
        using str_split_pieces [OF that] by (auto simp: re_sub_non_ascii_def)
      with ws show "\<forall>c\<in>set t. is_whitespace c \<longrightarrow> c = 32" by blast
    qed
    then show ?thesis
      unfolding filters spec_patterns_def term_patterns_def by auto
  qed
  ultimately show ?thesis using filters by blast
qed

theorem filter_results_patterns_witness:
  "re_sub_non_ascii (search_bar (ui_after_typing (lit ''foo, bar''))) \<noteq> []
   \<and> name_filters (filter_results (ui_after_typing (lit ''foo, bar'')))
       = [lit ''*foo*.py'', lit ''*foo*.mel'', lit ''*bar*.py'', lit ''*bar*.mel'']
   \<and> expanded (filter_results (ui_after_typing (lit ''foo, bar'')))
   \<and> set (name_filters (filter_results (ui_after_typing (lit ''foo, bar''))))
       = spec_patterns (lit ''foo, bar'')"
proof -
  let ?ui = "ui_after_typing (lit ''foo, bar'')"
  have h: "re_sub_non_ascii (search_bar ?ui) \<noteq> []"
    by (simp add: ui_after_typing_def re_sub_non_ascii_def lit_def)
  have ws: "\<forall>c\<in>set (search_bar ?ui). is_whitespace c \<longrightarrow> c = 32"
    by (simp add: ui_after_typing_def lit_def is_whitespace_def)
  have split: "str_split 44 (re_sub_non_ascii (search_bar ?ui)) = [lit ''foo'', lit '' bar'']"
    by (simp add: ui_after_typing_def re_sub_non_ascii_def lit_def)
  note res = filter_results_patterns [OF h]
  have a: "name_filters (filter_results ?ui)
       = [lit ''*foo*.py'', lit ''*foo*.mel'', lit ''*bar*.py'', lit ''*bar*.mel'']"
    using res [THEN conjunct1] unfolding split by (simp add: replace_space_def lit_def)
  have b: "expanded (filter_results ?ui)"
    using res [THEN conjunct2, THEN conjunct1] .
  have "set (name_filters (filter_results ?ui)) = spec_patterns (search_bar ?ui)"
    using res [THEN conjunct2, THEN conjunct2] ws by (rule mp)
  then have c: "set (name_filters (filter_results ?ui)) = spec_patterns (lit ''foo, bar'')"
    by (simp add: ui_after_typing_def)
  from h a b c show ?thesis by (intro conjI)
qed

text \<open>
  Claim C7: the expansion of the tree after \<open>filter_results\<close> depends only on whether the
  normalized query is empty, whatever the widget showed before: an empty normalized query
  gives the default filters \<open>*.py\<close> and \<open>*.mel\<close> and a collapsed tree, every other query
  an expanded tree; two widgets whose normalized queries are both empty or both not empty
  end with the same expansion, and so does a second run of the computation.
\<close>

theorem filter_results_expansion:
  "(re_sub_non_ascii (search_bar ui) = [] \<longrightarrow>
      name_filters (filter_results ui) = [lit ''*.py'', lit ''*.mel'']
      \<and> \<not> expanded (filter_results ui))
   \<and> (re_sub_non_ascii (search_bar ui) \<noteq> [] \<longrightarrow> expanded (filter_results ui))
   \<and> expanded (filter_results ui) = (re_sub_non_ascii (search_bar ui) \<noteq> [])
   \<and> ((re_sub_non_ascii (search_bar ui) = []) = (re_sub_non_ascii (search_bar ui') = [])
        \<longrightarrow> expanded (filter_results ui) = expanded (filter_results ui'))
   \<and> expanded (filter_results (filter_results ui)) = expanded (filter_results ui)"
  by (simp add: filter_results_def default_filter_def Let_def)

theorem filter_results_expansion_witness:
  "re_sub_non_ascii (search_bar \<lparr>search_bar = [233, 8364], name_filters = [lit ''*rig*.py''], expanded = True\<rparr>) = []
   \<and> name_filters (filter_results \<lparr>search_bar = [233, 8364], name_filters = [lit ''*rig*.py''], expanded = True\<rparr>)
       = [lit ''*.py'', lit ''*.mel'']
   \<and> \<not> expanded (filter_results \<lparr>search_bar = [233, 8364], name_filters = [lit ''*rig*.py''], expanded = True\<rparr>)
   \<and> re_sub_non_ascii (search_bar (ui_after_typing (lit ''rig''))) \<noteq> []
   \<and> expanded (filter_results (ui_after_typing (lit ''rig'')))
   \<and> (re_sub_non_ascii (search_bar (ui_after_typing (lit ''rig''))) = [])
       = (re_sub_non_ascii (search_bar \<lparr>search_bar = lit ''a,b'', name_filters = [], expanded = False\<rparr>) = [])
   \<and> expanded (filter_results (ui_after_typing (lit ''rig'')))
       = expanded (filter_results \<lparr>search_bar = lit ''a,b'', name_filters = [], expanded = False\<rparr>)"
proof -
  let ?u1 = "\<lparr>search_bar = [233, 8364], name_filters = [lit ''*rig*.py''], expanded = True\<rparr>"
  let ?u2 = "ui_after_typing (lit ''rig'')"
  let ?u3 = "\<lparr>search_bar = lit ''a,b'', name_filters = [], expanded = False\<rparr>"
  have h1: "re_sub_non_ascii (search_bar ?u1) = []" by (simp add: re_sub_non_ascii_def)
  have h2: "re_sub_non_ascii (search_bar ?u2) \<noteq> []"
    by (simp add: re_sub_non_ascii_def ui_after_typing_def lit_def)
  have h3: "(re_sub_non_ascii (search_bar ?u2) = []) = (re_sub_non_ascii (search_bar ?u3) = [])"
    by (simp add: re_sub_non_ascii_def ui_after_typing_def lit_def)
  from h1 filter_results_expansion [of ?u1]
  have r1: "name_filters (filter_results ?u1) = [lit ''*.py'', lit ''*.mel'']"
    and r2: "\<not> expanded (filter_results ?u1)" by blast+
  from h2 h3 filter_results_expansion [of ?u2 ?u3]
  have r3: "expanded (filter_results ?u2)"
    and r4: "expanded (filter_results ?u2) = expanded (filter_results ?u3)" by blast+
  from h1 r1 r2 h2 r3 h3 r4 show ?thesis by (intro conjI)
qed


section \<open>Results on the double click\<close>

text \<open>
  Claim C6, as stated: the stored preference is read back at every double click. The code
  reads it only when it wires the signal; a double click calls the connected slots and
  reads nothing. When the stored preference becomes \<open>Run Script on Double-Click\<close> without a
  choice in the menu of this window (the settings file is shared by every session of the
  host application), a double click in a window that was wired for editing still opens the
  script.
\<close>

theorem double_click_counterexample:
  "settings ((init_window Map.empty (lit ''/s'') [])
       \<lparr>settings := setValue (settings (init_window Map.empty (lit ''/s'') []))
          k_double_click_action run_script_on_click\<rparr>) k_double_click_action
     = Some run_script_on_click
   \<and> double_click ((init_window Map.empty (lit ''/s'') [])
       \<lparr>settings := setValue (settings (init_window Map.empty (lit ''/s'') []))
          k_double_click_action run_script_on_click\<rparr>)
     = [action_open_script]"
  using keys_differ
  by (simp add: double_click_def init_window_def Let_def action_setup_double_click_connections_def
      QSettings_value_def action_set_folder_def setValue_def lit_def)

text \<open>
  Claim C6, amended: the double click is decided by the stored preference as it is read
  when the signal is wired, at the construction of the window and at once after every
  choice in the menu, and not at the double click, which reads no settings. The window
  starts with the preference that earlier sessions stored, and after any sequence of events
  its settings hold the last choice made in the menu, or else the preference it started
  with. As long as the preference changes through the menu only, a double click calls the
  slot that the stored preference names at that moment: with the run preference stored
  \<open>action_run_script\<close> and nothing else, with the edit preference \<open>action_open_script\<close> and
  nothing else, and with no preference stored \<open>action_open_script\<close>, the default. Choosing
  a preference in the menu stores it and rewires the double click at once, in the same
  window; a double click itself changes nothing.
\<close>

theorem double_click_dispatch:
  "settings (init_window stored folder dialog) k_double_click_action = stored k_double_click_action
   \<and> settings (fold handle evs (init_window stored folder dialog)) k_double_click_action
        = fold choose_preference evs (stored k_double_click_action)
   \<and> (settings (fold handle evs (init_window stored folder dialog)) k_double_click_action
        = Some run_script_on_click
      \<longrightarrow> double_click (fold handle evs (init_window stored folder dialog)) = [action_run_script])
   \<and> (settings (fold handle evs (init_window stored folder dialog)) k_double_click_action
        = Some edit_script_on_click
      \<longrightarrow> double_click (fold handle evs (init_window stored folder dialog)) = [action_open_script])
   \<and> (settings (fold handle evs (init_window stored folder dialog)) k_double_click_action = None
      \<longrightarrow> double_click (fold handle evs (init_window stored folder dialog)) = [action_open_script])
   \<and> settings (handle (Choose choice_key) (fold handle evs (init_window stored folder dialog)))
        k_double_click_action = Some choice_key
   \<and> double_click (handle (Choose run_script_on_click) (fold handle evs (init_window stored folder dialog)))
        = [action_run_script]
   \<and> double_click (handle (Choose edit_script_on_click) (fold handle evs (init_window stored folder dialog)))
        = [action_open_script]
   \<and> handle Double_click (fold handle evs (init_window stored folder dialog))
        = fold handle evs (init_window stored folder dialog)
   \<and> double_click ((fold handle evs (init_window stored folder dialog))\<lparr>settings := s\<rparr>)
        = double_click (fold handle evs (init_window stored folder dialog))"
proof -
  let ?w = "fold handle evs (init_window stored folder dialog)"
  have w: "wired ?w" by (rule wired_fold [OF wired_init])
  have w': "wired (handle (Choose c) ?w)" for c by (rule wired_handle [OF w])
  have s: "settings ?w k_double_click_action = fold choose_preference evs (stored k_double_click_action)"
    by (simp add: settings_fold settings_init)
  have d: "double_click (?w\<lparr>settings := s\<rparr>) = double_click ?w" by (simp add: double_click_def)
  have rest: "(settings ?w k_double_click_action = Some run_script_on_click
        \<longrightarrow> double_click ?w = [action_run_script])
   \<and> (settings ?w k_double_click_action = Some edit_script_on_click
        \<longrightarrow> double_click ?w = [action_open_script])
   \<and> (settings ?w k_double_click_action = None \<longrightarrow> double_click ?w = [action_open_script])
   \<and> settings (handle (Choose choice_key) ?w) k_double_click_action = Some choice_key
   \<and> double_click (handle (Choose run_script_on_click) ?w) = [action_run_script]
   \<and> double_click (handle (Choose edit_script_on_click) ?w) = [action_open_script]
   \<and> handle Double_click ?w = ?w"
    using w w' [of run_script_on_click] w' [of edit_script_on_click] choices_differ
      settings_Choose [of run_script_on_click ?w] settings_Choose [of edit_script_on_click ?w]
      settings_Choose [of choice_key ?w]
    unfolding wired_def double_click_def QSettings_value_def
    by (auto split: option.splits)
  from settings_init [of stored folder dialog] s rest d show ?thesis by blast
qed

theorem double_click_dispatch_witness:
  "settings (fold handle [] (init_window [k_double_click_action \<mapsto> run_script_on_click] (lit ''/s'') []))
       k_double_click_action = Some run_script_on_click
   \<and> double_click (fold handle [] (init_window [k_double_click_action \<mapsto> run_script_on_click] (lit ''/s'') []))
       = [action_run_script]
   \<and> settings (fold handle [Double_click, Choose edit_script_on_click]
         (init_window [k_double_click_action \<mapsto> run_script_on_click] (lit ''/s'') []))
       k_double_click_action = Some edit_script_on_click
   \<and> double_click (fold handle [Double_click, Choose edit_script_on_click]
         (init_window [k_double_click_action \<mapsto> run_script_on_click] (lit ''/s'') []))
       = [action_open_script]
   \<and> settings (fold handle [Set_folder (lit ''/o''), Double_click] (init_window Map.empty (lit ''/s'') []))
       k_double_click_action = None
   \<and> double_click (fold handle [Set_folder (lit ''/o''), Double_click] (init_window Map.empty (lit ''/s'') []))
       = [action_open_script]
   \<and> double_click (handle (Choose run_script_on_click)
         (fold handle [Set_folder (lit ''/o''), Double_click] (init_window Map.empty (lit ''/s'') [])))
       = [action_run_script]"
proof -
  let ?run = "[k_double_click_action \<mapsto> run_script_on_click]"
  note t1 = double_click_dispatch [of ?run "lit ''/s''" "[]" "[]"]
  note t2 = double_click_dispatch [of ?run "lit ''/s''" "[]" "[Double_click, Choose edit_script_on_click]"]
  note t3 = double_click_dispatch [of Map.empty "lit ''/s''" "[]" "[Set_folder (lit ''/o''), Double_click]"]
  have h1: "settings (fold handle [] (init_window ?run (lit ''/s'') [])) k_double_click_action
      = Some run_script_on_click"
    using t1 [THEN conjunct2, THEN conjunct1] by simp
  have h2: "settings (fold handle [Double_click, Choose edit_script_on_click] (init_window ?run (lit ''/s'') []))
      k_double_click_action = Some edit_script_on_click"
    using t2 [THEN conjunct2, THEN conjunct1] by simp
  have h3: "settings (fold handle [Set_folder (lit ''/o''), Double_click] (init_window Map.empty (lit ''/s'') []))
      k_double_click_action = None"
    using t3 [THEN conjunct2, THEN conjunct1] by simp
  from h1 t1 have r1: "double_click (fold handle [] (init_window ?run (lit ''/s'') [])) = [action_run_script]"
    by blast
  from h2 t2 have r2: "double_click (fold handle [Double_click, Choose edit_script_on_click]
      (init_window ?run (lit ''/s'') [])) = [action_open_script]"
    by blast
  from h3 t3 have r3: "double_click (fold handle [Set_folder (lit ''/o''), Double_click]
      (init_window Map.empty (lit ''/s'') [])) = [action_open_script]"
    by blast
  from t3 have r4: "double_click (handle (Choose run_script_on_click)
      (fold handle [Set_folder (lit ''/o''), Double_click] (init_window Map.empty (lit ''/s'') [])))
      = [action_run_script]"
    by blast
  from h1 r1 h2 r2 h3 r3 r4 show ?thesis by (intro conjI)
qed

text \<open>
  Claim C10: as long as no double-click preference is stored, the radio group of the context
  menu shows \<open>Run Script on Double-Click\<close> as the checked choice, while a double click
  calls \<open>action_open_script\<close>; once the user chooses in the menu, the checked choice and the
  slot of the double click agree.
\<close>

theorem radio_default_disagrees:
  "(settings (fold handle evs (init_window stored folder dialog)) k_double_click_action = None
      \<longrightarrow> checked_choices (context_menu (fold handle evs (init_window stored folder dialog)))
            = [run_script_on_click]
          \<and> double_click (fold handle evs (init_window stored folder dialog)) = [action_open_script])
   \<and> checked_choices (context_menu
         (handle (Choose run_script_on_click) (fold handle evs (init_window stored folder dialog))))
        = [run_script_on_click]
   \<and> double_click (handle (Choose run_script_on_click) (fold handle evs (init_window stored folder dialog)))
        = [action_run_script]
   \<and> checked_choices (context_menu
         (handle (Choose edit_script_on_click) (fold handle evs (init_window stored folder dialog))))
        = [edit_script_on_click]
   \<and> double_click (handle (Choose edit_script_on_click) (fold handle evs (init_window stored folder dialog)))
        = [action_open_script]"
proof -
  let ?w = "fold handle evs (init_window stored folder dialog)"
  have w: "wired ?w" by (rule wired_fold [OF wired_init])
  have w': "wired (handle (Choose c) ?w)" for c by (rule wired_handle [OF w])
  have ne: "run_script_on_click \<noteq> []" "edit_script_on_click \<noteq> []"
    by (simp_all add: run_script_on_click_def edit_script_on_click_def lit_def)
  have "checked_choices (context_menu (handle (Choose run_script_on_click) ?w)) = [run_script_on_click]"
    using checked_stored [OF settings_Choose ne(1), of ?w] choices_differ by simp
  moreover have "checked_choices (context_menu (handle (Choose edit_script_on_click) ?w)) = [edit_script_on_click]"
    using checked_stored [OF settings_Choose ne(2), of ?w] choices_differ by simp
  moreover have "double_click (handle (Choose run_script_on_click) ?w) = [action_run_script]"
    using w' [of run_script_on_click] settings_Choose [of run_script_on_click ?w] choices_differ
    by (simp add: wired_def double_click_def QSettings_value_def)
  moreover have "double_click (handle (Choose edit_script_on_click) ?w) = [action_open_script]"
    using w' [of edit_script_on_click] settings_Choose [of edit_script_on_click ?w]
    by (simp add: wired_def double_click_def QSettings_value_def)
  moreover have "double_click ?w = [action_open_script]" if "settings ?w k_double_click_action = None"
    using w that by (simp add: wired_def double_click_def QSettings_value_def)
  ultimately show ?thesis using checked_default [of ?w] by blast
qed

theorem radio_default_disagrees_witness:
  "settings (fold handle [Set_folder (lit ''/s''), Double_click] (init_window Map.empty [] []))
       k_double_click_action = None
   \<and> checked_choices (context_menu
         (fold handle [Set_folder (lit ''/s''), Double_click] (init_window Map.empty [] [])))
       = [run_script_on_click]
   \<and> double_click (fold handle [Set_folder (lit ''/s''), Double_click] (init_window Map.empty [] []))
       = [action_open_script]"
proof -
  have h: "settings (fold handle [Set_folder (lit ''/s''), Double_click] (init_window Map.empty [] []))
       k_double_click_action = None"
    using keys_differ
    by (simp add: init_window_def Let_def settings_setup QSettings_value_def action_set_folder_def
        setValue_def lit_def)
  from h radio_default_disagrees [of "[Set_folder (lit ''/s''), Double_click]" Map.empty "[]" "[]"]
  show ?thesis by blast
qed

section \<open>Results on the backups and the logging\<close>

text \<open>
  Claim C3, as stated: \<open>backup_script\<close> on a path that exists creates exactly one new file.
  A second backup of \<open>/s/a.py\<close> within the same second writes over the first and creates
  no file, and when a file stands where the backup folder should be made, the failure is
  logged and no file is created.
\<close>

theorem backup_script_counterexample:
  "backup_script lk_example (11/2) (lit ''/s/a.py'') \<lparr>files = fs_scripts, log_records = []\<rparr>
     = Returned \<lparr>files = fs_script_saved, log_records = []\<rparr>
   \<and> path_exists fs_script_saved (lit ''/s/a.py'')
   \<and> backup_script lk_example (23/4) (lit ''/s/a.py'') \<lparr>files = fs_script_saved, log_records = []\<rparr>
     = Returned \<lparr>files = fs_script_saved, log_records = []\<rparr>
   \<and> path_exists fs_blocked (lit ''/s/a.py'')
   \<and> backup_script lk_example (11/2) (lit ''/s/a.py'') \<lparr>files = fs_blocked, log_records = []\<rparr>
     = Returned \<lparr>files = fs_blocked,
                 log_records = [\<lparr>via = Root_logger, level = ERROR, message = lit ''Not a directory''\<rparr>]\<rparr>"
  by (simp add: backup_script_def backup_script_try_example path_exists_example
      logging_error_def emit_def)

text \<open>
  Claim C3, amended: \<open>backup_script\<close> on a path that does not exist returns with the state
  unchanged (no file, no log record, no error). On a path that exists, when no entry of
  the name of the backup exists yet and the attempt raises no error, the path names a
  regular file and the call returns with exactly one new file, which is
  \<open><script_backup_folder>/<stem>/<stem>_BACKUP_<seconds><extension>\<close> and holds the bytes and
  the modification time of the original; every other file, the original included, is as
  before.
\<close>

theorem backup_script_one_new_file:
  "(\<not> path_exists (files w) script_path \<longrightarrow> backup_script lk now script_path w = Returned w)
   \<and> (path_exists (files w) script_path
        \<and> backup_script_try lk now script_path (files w) = Returned fs'
        \<and> \<not> path_exists (files w) (backup_file_path lk now script_path)
      \<longrightarrow> backup_script lk now script_path w = Returned (w\<lparr>files := fs'\<rparr>)
          \<and> backup_file_path lk now script_path
              = join (join (script_backup_folder lk) (fst (splitext (basename script_path))))
                  ((fst (splitext (basename script_path)) @ lit ''_BACKUP_'' @ decimal (nat \<lfloor>now\<rfloor>))
                     @ snd (splitext (basename script_path)))
          \<and> (\<exists>c m. resolve (files w) script_path = Some (File c m)
                 \<and> file_at fs' (components (backup_file_path lk now script_path)) = Some (c, m)
                 \<and> file_at fs' (components script_path) = Some (c, m))
          \<and> file_at (files w) (components (backup_file_path lk now script_path)) = None
          \<and> (\<forall>q. q \<noteq> components (backup_file_path lk now script_path)
                \<longrightarrow> file_at fs' q = file_at (files w) q))"
proof (intro conjI impI)
  assume "\<not> path_exists (files w) script_path"
  then show "backup_script lk now script_path w = Returned w" by (simp add: backup_script_def)
next
  assume a: "path_exists (files w) script_path
        \<and> backup_script_try lk now script_path (files w) = Returned fs'
        \<and> \<not> path_exists (files w) (backup_file_path lk now script_path)"
  let ?cb = "components (backup_file_path lk now script_path)"
  from a have ex: "path_exists (files w) script_path"
    and ok: "backup_script_try lk now script_path (files w) = Returned fs'"
    and fresh: "\<not> path_exists (files w) (backup_file_path lk now script_path)" by simp_all
  from backup_script_try_file_at [OF ok fresh] obtain c m where
    isfile: "resolve (files w) script_path = Some (File c m)"
    and eff: "\<And>q. file_at fs' q = (if q = ?cb then Some (c, m) else file_at (files w) q)"
    by blast
  show "backup_script lk now script_path w = Returned (w\<lparr>files := fs'\<rparr>)"
    using ex ok by (simp add: backup_script_def)
  show "backup_file_path lk now script_path
              = join (join (script_backup_folder lk) (fst (splitext (basename script_path))))
                  ((fst (splitext (basename script_path)) @ lit ''_BACKUP_'' @ decimal (nat \<lfloor>now\<rfloor>))
                     @ snd (splitext (basename script_path)))"
    by (simp add: backup_file_path_def get_backup_folder_for_script_def unique_time_def
        split: prod.splits)
  show none: "file_at (files w) ?cb = None"
    using fresh backup_file_path_last [of lk now script_path]
    by (simp add: path_exists_def resolve_None file_at_def)
  have orig: "file_at (files w) (components script_path) = Some (c, m)"
    using isfile by (simp add: resolve_File file_at_lookup)
  with none have "components script_path \<noteq> ?cb" by auto
  with orig have "file_at fs' (components script_path) = Some (c, m)" using eff by simp
  moreover have "file_at fs' ?cb = Some (c, m)" using eff [of ?cb] by simp
  ultimately show "\<exists>c m. resolve (files w) script_path = Some (File c m)
                 \<and> file_at fs' ?cb = Some (c, m)
                 \<and> file_at fs' (components script_path) = Some (c, m)"
    using isfile by blast
  show "\<forall>q. q \<noteq> ?cb \<longrightarrow> file_at fs' q = file_at (files w) q" using eff by simp
qed

theorem backup_script_one_new_file_witness:
  "\<not> path_exists (files \<lparr>files = fs_scripts, log_records = []\<rparr>) (lit ''/s/new.py'')
   \<and> backup_script lk_example (11/2) (lit ''/s/new.py'') \<lparr>files = fs_scripts, log_records = []\<rparr>
       = Returned \<lparr>files = fs_scripts, log_records = []\<rparr>
   \<and> path_exists (files \<lparr>files = fs_scripts, log_records = []\<rparr>) (lit ''/s/a.py'')
   \<and> backup_script_try lk_example (11/2) (lit ''/s/a.py'') (files \<lparr>files = fs_scripts, log_records = []\<rparr>)
       = Returned fs_script_saved
   \<and> \<not> path_exists (files \<lparr>files = fs_scripts, log_records = []\<rparr>)
         (backup_file_path lk_example (11/2) (lit ''/s/a.py''))
   \<and> backup_script lk_example (11/2) (lit ''/s/a.py'') \<lparr>files = fs_scripts, log_records = []\<rparr>
       = Returned \<lparr>files = fs_script_saved, log_records = []\<rparr>
   \<and> backup_file_path lk_example (11/2) (lit ''/s/a.py'')
       = lit ''/d/ScriptTree/Maya/ScriptTree_ScriptBackup/a/a_BACKUP_5.py''
   \<and> file_at fs_script_saved (components (lit ''/d/ScriptTree/Maya/ScriptTree_ScriptBackup/a/a_BACKUP_5.py''))
       = Some (lit ''x'', 1)
   \<and> file_at fs_script_saved (components (lit ''/s/a.py'')) = Some (lit ''x'', 1)
   \<and> file_at fs_script_saved (components (lit ''/s/lib/u.mel''))
       = file_at fs_scripts (components (lit ''/s/lib/u.mel''))"
proof -
  let ?w = "\<lparr>files = fs_scripts, log_records = []\<rparr>"
  let ?cb = "components (backup_file_path lk_example (11/2) (lit ''/s/a.py''))"
  have h0: "\<not> path_exists (files ?w) (lit ''/s/new.py'')"
    by (simp add: path_exists_example)
  have h1: "path_exists (files ?w) (lit ''/s/a.py'')"
    by (simp add: path_exists_example)
  have h2: "backup_script_try lk_example (11/2) (lit ''/s/a.py'') (files ?w) = Returned fs_script_saved"
    by (simp add: backup_script_try_example)
  have h3: "\<not> path_exists (files ?w) (backup_file_path lk_example (11/2) (lit ''/s/a.py''))"
    by (simp add: backup_file_path_example path_exists_example)
  have src: "resolve (files ?w) (lit ''/s/a.py'') = Some (File (lit ''x'') 1)"
    by (simp add: path_exists_example)
  have other: "components (lit ''/s/lib/u.mel'') \<noteq> ?cb"
    by (simp add: backup_file_path_example) (simp add: components_def lit_def)
  from h0 backup_script_one_new_file [of ?w "lit ''/s/new.py''" lk_example "11/2"]
  have r0: "backup_script lk_example (11/2) (lit ''/s/new.py'') ?w = Returned ?w" by blast
  note t = backup_script_one_new_file [of ?w "lit ''/s/a.py''" lk_example "11/2" fs_script_saved]
  from t h1 h2 h3
  have r1: "backup_script lk_example (11/2) (lit ''/s/a.py'') ?w = Returned (?w\<lparr>files := fs_script_saved\<rparr>)"
    and ex: "\<exists>c m. resolve (files ?w) (lit ''/s/a.py'') = Some (File c m)
              \<and> file_at fs_script_saved ?cb = Some (c, m)
              \<and> file_at fs_script_saved (components (lit ''/s/a.py'')) = Some (c, m)"
    and rest: "\<forall>q. q \<noteq> ?cb \<longrightarrow> file_at fs_script_saved q = file_at (files ?w) q"
    by blast+
  from ex src have r2: "file_at fs_script_saved ?cb = Some (lit ''x'', 1)"
    and r3: "file_at fs_script_saved (components (lit ''/s/a.py'')) = Some (lit ''x'', 1)"
    by auto
  from rest other have r4: "file_at fs_script_saved (components (lit ''/s/lib/u.mel''))
       = file_at fs_scripts (components (lit ''/s/lib/u.mel''))" by simp
  from h0 h1 h2 h3 r0 r1 r2 r3 r4 show ?thesis by (simp add: backup_file_path_example)
qed



text \<open>
  Claim C5, as stated: the file set of the destination matches the file set of the source.
  A backup of the tree \<open>/s\<close> and then of the tree \<open>/o\<close> within the same second go to the
  same destination, which afterwards holds \<open>a.py\<close>, a file that the source \<open>/o\<close> of the second
  backup does not have.
\<close>

theorem backup_tree_counterexample:
  "backup_tree lk_example (11/2) (lit ''/s'') \<lparr>files = fs_scripts, log_records = []\<rparr>
     = Returned \<lparr>files = fs_tree_saved, log_records = [tree_saved_record]\<rparr>
   \<and> backup_tree lk_example (23/4) (lit ''/o'') \<lparr>files = fs_tree_saved, log_records = [tree_saved_record]\<rparr>
     = Returned \<lparr>files = fs_tree_saved_twice, log_records = [tree_saved_record, tree_saved_record]\<rparr>
   \<and> file_at fs_tree_saved_twice (components (backup_directory_path lk_example (23/4)) @ [lit ''a.py''])
     = Some (lit ''x'', 1)
   \<and> file_at fs_tree_saved (components (lit ''/o'') @ [lit ''a.py'']) = None"
  by (simp add: backup_tree_def backup_directory_path_example copy_directory_example
      logging_info_def emit_def tree_saved_record_def)
     (simp add: lit_def file_at_def components_def fs_example_defs)

text \<open>
  Claim C5, amended: when the source folder is a directory whose entries have distinct
  valid names, the destination
  \<open><tree_backup_folder>/ScriptTree_BACKUP_<seconds>\<close> does not exist yet and does not lie
  inside the source, and \<open>backup_tree\<close> returns, then under the destination is exactly what
  the source holds, at the same relative paths (so the two file sets match, with the bytes
  and the times of the files), the destination is a directory, the source is as before and
  no file outside the destination is created, changed or removed; one log record is added.
  And the destinations of two clock readings that are more than one second apart are
  different, and neither lies inside the other.
\<close>

theorem backup_tree_copy:
  "(backup_tree lk now script_folder w = Returned w'
      \<and> resolve (files w) script_folder = Some (Dir es)
      \<and> distinct (map fst es) \<and> (\<forall>n\<in>set (map fst es). valid_name n)
      \<and> \<not> path_exists (files w) (backup_directory_path lk now)
      \<and> \<not> prefix (components script_folder) (components (backup_directory_path lk now))
    \<longrightarrow> backup_directory_path lk now
          = join (tree_backup_folder lk) (lit ''ScriptTree_BACKUP_'' @ decimal (nat \<lfloor>now\<rfloor>))
        \<and> (\<forall>r. r \<noteq> [] \<longrightarrow> lookup (files w') (components (backup_directory_path lk now) @ r)
                          = lookup (files w) (components script_folder @ r))
        \<and> (\<forall>r. file_at (files w') (components (backup_directory_path lk now) @ r)
               = file_at (files w) (components script_folder @ r))
        \<and> dir_at (files w') (components (backup_directory_path lk now))
        \<and> (\<forall>r. lookup (files w') (components script_folder @ r)
               = lookup (files w) (components script_folder @ r))
        \<and> (\<forall>q. \<not> prefix (components (backup_directory_path lk now)) q
               \<longrightarrow> file_at (files w') q = file_at (files w) q)
        \<and> log_records w' = log_records w
             @ [\<lparr>via = Root_logger, level = INFO,
                 message = lit ''ScriptTree Network Folder Saved: '' @ backup_directory_path lk now\<rparr>])
   \<and> (0 \<le> now \<and> now + 1 < now'
    \<longrightarrow> backup_directory_path lk now \<noteq> backup_directory_path lk now'
        \<and> \<not> prefix (components (backup_directory_path lk now)) (components (backup_directory_path lk now'))
        \<and> \<not> prefix (components (backup_directory_path lk now')) (components (backup_directory_path lk now)))"
proof (intro conjI impI)
  assume a: "backup_tree lk now script_folder w = Returned w'
      \<and> resolve (files w) script_folder = Some (Dir es)
      \<and> distinct (map fst es) \<and> (\<forall>n\<in>set (map fst es). valid_name n)
      \<and> \<not> path_exists (files w) (backup_directory_path lk now)
      \<and> \<not> prefix (components script_folder) (components (backup_directory_path lk now))"
  let ?cs = "components script_folder" and ?cd = "components (backup_directory_path lk now)"
  from a obtain fs' where cp: "copy_directory script_folder (backup_directory_path lk now) (files w) = Returned fs'"
    and w': "w' = logging_info (lit ''ScriptTree Network Folder Saved: '' @ backup_directory_path lk now)
                    (w\<lparr>files := fs'\<rparr>)"
    by (auto simp: backup_tree_def split: outcome.splits)
  have fs': "files w' = fs'" using w' by (simp add: logging_info_def emit_def)
  from a have src: "resolve (files w) script_folder = Some (Dir es)"
    and names: "distinct (map fst es)" "\<forall>n\<in>set (map fst es). valid_name n"
    and fresh: "\<not> path_exists (files w) (backup_directory_path lk now)"
    and outside: "\<not> prefix ?cs ?cd" by simp_all
  from copy_directory_effect [OF cp fresh src names outside]
  have e1: "\<And>r. r \<noteq> [] \<Longrightarrow> lookup fs' (?cd @ r) = lookup (files w) (?cs @ r)"
    and e2: "dir_at fs' ?cd"
    and e3: "\<And>q. \<not> prefix ?cd q \<Longrightarrow> \<not> prefix q ?cd \<Longrightarrow> lookup fs' q = lookup (files w) q"
    and e4: "\<And>q. \<not> prefix ?cd q \<Longrightarrow> file_at fs' q = file_at (files w) q"
    by auto
  have look_src: "lookup (files w) ?cs = Some (Dir es)" using src by (simp add: resolve_Dir)
  show "backup_directory_path lk now
          = join (tree_backup_folder lk) (lit ''ScriptTree_BACKUP_'' @ decimal (nat \<lfloor>now\<rfloor>))"
    by (simp add: backup_directory_path_def unique_time_def)
  show "\<forall>r. r \<noteq> [] \<longrightarrow> lookup (files w') (?cd @ r) = lookup (files w) (?cs @ r)"
    using e1 fs' by simp
  show "\<forall>r. file_at (files w') (?cd @ r) = file_at (files w) (?cs @ r)"
  proof
    fix r
    show "file_at (files w') (?cd @ r) = file_at (files w) (?cs @ r)"
    proof (cases "r = []")
      case True
      then show ?thesis using e2 look_src fs' by (auto simp: file_at_def dir_at_lookup)
    next
      case False
      then show ?thesis using e1 fs' by (simp add: file_at_def)
    qed
  qed
  show "dir_at (files w') ?cd" using e2 fs' by simp
  have dst_new: "lookup (files w) ?cd = None"
  proof (rule ccontr)
    assume "lookup (files w) ?cd \<noteq> None"
    then obtain n where n: "lookup (files w) ?cd = Some n" by auto
    have ne: "backup_directory_path lk now \<noteq> []" "last (backup_directory_path lk now) \<noteq> 47"
      using join_not_Nil [OF valid_backup_directory_name [of now], of "tree_backup_folder lk"]
        last_join [OF valid_backup_directory_name [of now], of "tree_backup_folder lk"]
        last_valid_name [OF valid_backup_directory_name [of now]]
      by (simp_all add: backup_directory_path_def)
    from resolve_name [OF ne, of "files w"] n fresh show False by (simp add: path_exists_def)
  qed
  show "\<forall>r. lookup (files w') (?cs @ r) = lookup (files w) (?cs @ r)"
  proof
    fix r
    have "\<not> prefix (?cs @ r) ?cd" using outside by (metis append_prefixD)
    moreover have "\<not> prefix ?cd (?cs @ r)"
    proof
      assume p: "prefix ?cd (?cs @ r)"
      have "prefix ?cs (?cs @ r)" by simp
      with p have "prefix ?cd ?cs \<or> prefix ?cs ?cd" by (metis prefix_same_cases)
      with outside have "prefix ?cd ?cs" by simp
      from lookup_prefix_Some [OF look_src this] dst_new show False by simp
    qed
    ultimately show "lookup (files w') (?cs @ r) = lookup (files w) (?cs @ r)"
      using e3 fs' by simp
  qed
  show "\<forall>q. \<not> prefix ?cd q \<longrightarrow> file_at (files w') q = file_at (files w) q"
    using e4 fs' by simp
  show "log_records w' = log_records w
             @ [\<lparr>via = Root_logger, level = INFO,
                 message = lit ''ScriptTree Network Folder Saved: '' @ backup_directory_path lk now\<rparr>]"
    using w' by (simp add: logging_info_def emit_def)
next
  assume "0 \<le> now \<and> now + 1 < now'"
  then have t: "0 \<le> now" "now + 1 < now'" by simp_all
  show "backup_directory_path lk now \<noteq> backup_directory_path lk now'"
    and "\<not> prefix (components (backup_directory_path lk now)) (components (backup_directory_path lk now'))"
    and "\<not> prefix (components (backup_directory_path lk now')) (components (backup_directory_path lk now))"
    using backup_directories_apart [OF t, of lk] by simp_all
qed

theorem backup_tree_copy_witness:
  "backup_tree lk_example (11/2) (lit ''/s'') \<lparr>files = fs_scripts, log_records = []\<rparr>
     = Returned \<lparr>files = fs_tree_saved, log_records = [tree_saved_record]\<rparr>
   \<and> resolve (files \<lparr>files = fs_scripts, log_records = []\<rparr>) (lit ''/s'')
       = Some (Dir [(lit ''a.py'', File (lit ''x'') 1),
                    (lit ''lib'', Dir [(lit ''u.mel'', File (lit ''y'') 2)])])
   \<and> distinct (map fst [(lit ''a.py'', File (lit ''x'') 1),
                         (lit ''lib'', Dir [(lit ''u.mel'', File (lit ''y'') 2)])])
   \<and> valid_name (lit ''a.py'') \<and> valid_name (lit ''lib'')
   \<and> \<not> path_exists (files \<lparr>files = fs_scripts, log_records = []\<rparr>) (backup_directory_path lk_example (11/2))
   \<and> \<not> prefix (components (lit ''/s'')) (components (backup_directory_path lk_example (11/2)))
   \<and> (0::real) \<le> 11/2 \<and> (11/2::real) + 1 < 7
   \<and> (\<forall>r. file_at (files \<lparr>files = fs_tree_saved, log_records = [tree_saved_record]\<rparr>)
               (components (backup_directory_path lk_example (11/2)) @ r)
            = file_at (files \<lparr>files = fs_scripts, log_records = []\<rparr>) (components (lit ''/s'') @ r))
   \<and> (\<forall>r. lookup (files \<lparr>files = fs_tree_saved, log_records = [tree_saved_record]\<rparr>)
               (components (lit ''/s'') @ r)
            = lookup (files \<lparr>files = fs_scripts, log_records = []\<rparr>) (components (lit ''/s'') @ r))
   \<and> backup_directory_path lk_example (11/2) \<noteq> backup_directory_path lk_example 7"
proof -
  let ?w = "\<lparr>files = fs_scripts, log_records = []\<rparr>"
  let ?w' = "\<lparr>files = fs_tree_saved, log_records = [tree_saved_record]\<rparr>"
  let ?es = "[(lit ''a.py'', File (lit ''x'') 1), (lit ''lib'', Dir [(lit ''u.mel'', File (lit ''y'') 2)])]"
  have h1: "backup_tree lk_example (11/2) (lit ''/s'') ?w = Returned ?w'"
    by (rule backup_tree_example)
  have h2: "resolve (files ?w) (lit ''/s'') = Some (Dir ?es)"
    by (simp add: fs_example_defs fs_eval)
  have h3: "distinct (map fst ?es)" by (simp add: lit_def)
  have h4: "\<forall>n\<in>set (map fst ?es). valid_name n" by (simp add: valid_name_def lit_def)
  have h5: "\<not> path_exists (files ?w) (backup_directory_path lk_example (11/2))"
    by (simp add: backup_directory_path_example path_exists_example)
  have h6: "\<not> prefix (components (lit ''/s'')) (components (backup_directory_path lk_example (11/2)))"
    by (simp add: backup_directory_path_example) (simp add: components_def lit_def)
  have h7: "(0::real) \<le> 11/2 \<and> (11/2::real) + 1 < 7" by simp
  note t = backup_tree_copy [of lk_example "11/2" "lit ''/s''" ?w ?w' ?es 7]
  from t h1 h2 h3 h4 h5 h6
  have r1: "\<forall>r. file_at (files ?w') (components (backup_directory_path lk_example (11/2)) @ r)
            = file_at (files ?w) (components (lit ''/s'') @ r)"
    and r2: "\<forall>r. lookup (files ?w') (components (lit ''/s'') @ r)
            = lookup (files ?w) (components (lit ''/s'') @ r)"
    by blast+
  from t h7 have r3: "backup_directory_path lk_example (11/2) \<noteq> backup_directory_path lk_example 7"
    by blast
  have v: "valid_name (lit ''a.py'')" "valid_name (lit ''lib'')" using h4 by simp_all
  from h1 h2 h3 v h5 h6 h7 r1 r2 r3 show ?thesis by (intro conjI) simp_all
qed

text \<open>
  Claim C9, at two inputs: the log record of a tree backup and the log record of a failed
  script backup go through the root logger of the \<open>logging\<close> module, which is not the logger
  \<open>Script-Tree\<close> that the other modules log through.
\<close>

theorem backups_log_through_root_logger:
  "backup_tree lk_example (11/2) (lit ''/s'') \<lparr>files = fs_scripts, log_records = []\<rparr>
     = Returned \<lparr>files = fs_tree_saved, log_records = [tree_saved_record]\<rparr>
   \<and> via tree_saved_record = Root_logger
   \<and> backup_script lk_example (11/2) (lit ''/s/a.py'') \<lparr>files = fs_blocked, log_records = []\<rparr>
     = Returned \<lparr>files = fs_blocked,
                 log_records = [\<lparr>via = Root_logger, level = ERROR, message = lit ''Not a directory''\<rparr>]\<rparr>
   \<and> script_tree_log = Named_logger (lit ''Script-Tree'')
   \<and> Root_logger \<noteq> script_tree_log
   \<and> \<not> propagate set_logger"
  by (simp add: backup_tree_def backup_directory_path_example copy_directory_example
      logging_info_def logging_error_def emit_def tree_saved_record_def script_tree_log_def set_logger_def
      backup_script_def backup_script_try_example path_exists_example)
     (simp add: lit_def)

end
